theory Spec2Isabelle
  imports Main
begin

section \<open>Python slices\<close>

text \<open>
  The editor (\<^verbatim>\<open>src/editor.py\<close>) edits its buffer with slices only:
  \<^verbatim>\<open>content[:p]\<close>, \<^verbatim>\<open>content[p:]\<close> and \<^verbatim>\<open>content[a:b]\<close>. A Python slice
  never raises: a negative bound counts from the end, and every bound is then clamped into
  \<open>0 .. len\<close>; a slice whose lower bound is not below its upper bound is empty.
  Offsets are Python's unbounded integers, hence \<open>int\<close>.
\<close>

definition slice_index :: "nat \<Rightarrow> int \<Rightarrow> nat" where
  "slice_index n i = (if i < 0 then nat (max 0 (int n + i)) else min (nat i) n)"

definition slice_to :: "'a list \<Rightarrow> int \<Rightarrow> 'a list" where
  "slice_to s i = take (slice_index (length s) i) s"

definition slice_from :: "'a list \<Rightarrow> int \<Rightarrow> 'a list" where
  "slice_from s i = drop (slice_index (length s) i) s"

definition slice :: "'a list \<Rightarrow> int \<Rightarrow> int \<Rightarrow> 'a list" where
  "slice s i j =
     (let a = slice_index (length s) i; b = slice_index (length s) j
      in take (b - a) (drop a s))"

section \<open>Commands\<close>

text \<open>
  \<^verbatim>\<open>class Command\<close> and its two subclasses. The view passes
  \<^verbatim>\<open>(self.selection_start, self.selection_end)\<close> as the selection, a pair whose
  components may each be \<^verbatim>\<open>None\<close>; \<^verbatim>\<open>execute\<close> reports the selection
  \<^verbatim>\<open>None\<close>. The field \<^verbatim>\<open>doc\<close> is the one shared document, whose content is
  passed to and returned from the methods here. The Python fields \<^verbatim>\<open>text\<close> and
  \<^verbatim>\<open>end\<close> are \<open>ins_text\<close> and \<open>end_pos\<close>.
\<close>

type_synonym selection = "(int option \<times> int option) option"

record Command =
  cursor_before :: int
  selection_before :: selection
  window_id :: int
  cursor_after :: "int option"
  selection_after :: selection

record InsertCommand = Command +
  ins_text :: string
  pos :: int

record DeleteCommand = Command +
  start :: int
  end_pos :: int
  deleted_text :: string

datatype command = Insert InsertCommand | Delete DeleteCommand

datatype command_type = InsertCommandT | DeleteCommandT

definition new_InsertCommand ::
  "string \<Rightarrow> int \<Rightarrow> int \<Rightarrow> selection \<Rightarrow> int \<Rightarrow> InsertCommand" where
  "new_InsertCommand txt p cursor_pos sel wid =
     \<lparr>cursor_before = cursor_pos, selection_before = sel, window_id = wid,
      cursor_after = None, selection_after = None, ins_text = txt, pos = p\<rparr>"

text \<open>\<^verbatim>\<open>DeleteCommand.__init__\<close> reads \<^verbatim>\<open>doc.content[start:end]\<close>: the first
  argument is the content of the document at construction.\<close>

definition new_DeleteCommand ::
  "string \<Rightarrow> int \<Rightarrow> int \<Rightarrow> int \<Rightarrow> selection \<Rightarrow> int \<Rightarrow> DeleteCommand" where
  "new_DeleteCommand doc_content s e cursor_pos sel wid =
     \<lparr>cursor_before = cursor_pos, selection_before = sel, window_id = wid,
      cursor_after = None, selection_after = None,
      start = s, end_pos = e, deleted_text = slice doc_content s e\<rparr>"

text \<open>
  \<^verbatim>\<open>execute\<close> returns \<^verbatim>\<open>(cursor_after, selection_after)\<close>, stores both in the
  command and rewrites the document content; \<^verbatim>\<open>undo\<close> returns
  \<^verbatim>\<open>(cursor_before, selection_before)\<close> and rewrites the content only.
\<close>

definition InsertCommand_execute ::
  "InsertCommand \<Rightarrow> string \<Rightarrow> (int \<times> selection) \<times> InsertCommand \<times> string" where
  "InsertCommand_execute c doc_content =
     (let content' = slice_to doc_content (pos c) @ ins_text c @ slice_from doc_content (pos c);
          ca = pos c + int (length (ins_text c))
      in ((ca, None), c\<lparr>cursor_after := Some ca, selection_after := None\<rparr>, content'))"

definition InsertCommand_undo :: "InsertCommand \<Rightarrow> string \<Rightarrow> (int \<times> selection) \<times> string" where
  "InsertCommand_undo c doc_content =
     ((cursor_before c, selection_before c),
      slice_to doc_content (pos c) @ slice_from doc_content (pos c + int (length (ins_text c))))"

definition DeleteCommand_execute ::
  "DeleteCommand \<Rightarrow> string \<Rightarrow> (int \<times> selection) \<times> DeleteCommand \<times> string" where
  "DeleteCommand_execute c doc_content =
     (let content' = slice_to doc_content (start c) @ slice_from doc_content (end_pos c);
          ca = start c
      in ((ca, None), c\<lparr>cursor_after := Some ca, selection_after := None\<rparr>, content'))"

definition DeleteCommand_undo :: "DeleteCommand \<Rightarrow> string \<Rightarrow> (int \<times> selection) \<times> string" where
  "DeleteCommand_undo c doc_content =
     ((cursor_before c, selection_before c),
      slice_to doc_content (start c) @ deleted_text c @ slice_from doc_content (start c))"

fun execute :: "command \<Rightarrow> string \<Rightarrow> (int \<times> selection) \<times> command \<times> string" where
  "execute (Insert c) doc_content =
     (case InsertCommand_execute c doc_content of (r, c', s) \<Rightarrow> (r, Insert c', s))"
| "execute (Delete c) doc_content =
     (case DeleteCommand_execute c doc_content of (r, c', s) \<Rightarrow> (r, Delete c', s))"

fun undo_command :: "command \<Rightarrow> string \<Rightarrow> (int \<times> selection) \<times> string" where
  "undo_command (Insert c) doc_content = InsertCommand_undo c doc_content"
| "undo_command (Delete c) doc_content = DeleteCommand_undo c doc_content"

fun type_of :: "command \<Rightarrow> command_type" where
  "type_of (Insert c) = InsertCommandT"
| "type_of (Delete c) = DeleteCommandT"

fun command_window_id :: "command \<Rightarrow> int" where
  "command_window_id (Insert c) = window_id c"
| "command_window_id (Delete c) = window_id c"

fun command_cursor_before :: "command \<Rightarrow> int" where
  "command_cursor_before (Insert c) = cursor_before c"
| "command_cursor_before (Delete c) = cursor_before c"

fun command_selection_before :: "command \<Rightarrow> selection" where
  "command_selection_before (Insert c) = selection_before c"
| "command_selection_before (Delete c) = selection_before c"

section \<open>The document\<close>

text \<open>
  \<^verbatim>\<open>class Document\<close>: the buffer and the two stacks, most recent command last. The
  list \<^verbatim>\<open>windows\<close> holds the attached GUI objects and is used for refreshing them
  only; it is left out. A command object sits in at most one stack at a time, and the
  views hand each command object over once, so commands are values here.
\<close>

record Document =
  filename :: string
  content :: string
  undo_stack :: "command list"
  redo_stack :: "command list"
  last_command_type :: "command_type option"

text \<open>\<^verbatim>\<open>f.read().replace('\r\n', '\n')\<close>, scanning from the left.\<close>

fun replace_crlf :: "string \<Rightarrow> string" where
  "replace_crlf [] = []"
| "replace_crlf [c] = [c]"
| "replace_crlf (c # d # cs) =
     (if c = CHR 0x0D \<and> d = CHR 0x0A then CHR 0x0A # replace_crlf cs
      else c # replace_crlf (d # cs))"

text \<open>\<^verbatim>\<open>Document.__init__\<close>; the second argument is what \<^verbatim>\<open>f.read()\<close>
  returns when \<^verbatim>\<open>os.path.exists(filename)\<close>, and \<open>None\<close> when there is no such
  file.\<close>

definition Document_init :: "string \<Rightarrow> string option \<Rightarrow> Document" where
  "Document_init fname file =
     \<lparr>filename = fname,
      content = (case file of None \<Rightarrow> [] | Some raw \<Rightarrow> replace_crlf raw),
      undo_stack = [], redo_stack = [], last_command_type = None\<rparr>"

definition can_group_with_last :: "Document \<Rightarrow> command \<Rightarrow> bool" where
  "can_group_with_last d cmd =
     (if undo_stack d = [] then False
      else let last_cmd = last (undo_stack d)
           in if type_of cmd \<noteq> type_of last_cmd then False
              else if command_window_id cmd \<noteq> command_window_id last_cmd then False
              else True)"

text \<open>The tail of \<^verbatim>\<open>execute_command\<close> (lines 103 to 107): run the command and push
  it.\<close>

definition push_command :: "Document \<Rightarrow> command \<Rightarrow> (int \<times> selection) \<times> Document" where
  "push_command d cmd =
     (case execute cmd (content d) of
        (r, cmd', s) \<Rightarrow>
          (r, d\<lparr>content := s, undo_stack := undo_stack d @ [cmd'], redo_stack := [],
                last_command_type := Some (type_of cmd)\<rparr>))"

text \<open>A grouped command: the changed top entry \<open>last_cmd\<close> gets the cursor and the
  selection that running the new command returned, and replaces the old top.\<close>

definition merge_insert ::
  "Document \<Rightarrow> InsertCommand \<Rightarrow> InsertCommand \<Rightarrow> (int \<times> selection) \<times> Document" where
  "merge_insert d cmd last_cmd =
     (case InsertCommand_execute cmd (content d) of
        ((cursor, sel), cmd', s) \<Rightarrow>
          ((cursor, sel),
           d\<lparr>content := s,
             undo_stack := butlast (undo_stack d) @
               [Insert (last_cmd\<lparr>cursor_after := Some cursor, selection_after := sel\<rparr>)],
             redo_stack := []\<rparr>))"

definition merge_delete ::
  "Document \<Rightarrow> DeleteCommand \<Rightarrow> DeleteCommand \<Rightarrow> (int \<times> selection) \<times> Document" where
  "merge_delete d cmd last_cmd =
     (case DeleteCommand_execute cmd (content d) of
        ((cursor, sel), cmd', s) \<Rightarrow>
          ((cursor, sel),
           d\<lparr>content := s,
             undo_stack := butlast (undo_stack d) @
               [Delete (last_cmd\<lparr>cursor_after := Some cursor, selection_after := sel\<rparr>)],
             redo_stack := []\<rparr>))"

fun execute_command :: "Document \<Rightarrow> command \<Rightarrow> (int \<times> selection) \<times> Document" where
  "execute_command d cmd =
     (if can_group_with_last d cmd then
        (case (cmd, last (undo_stack d)) of
           (Insert c, Insert last_cmd) \<Rightarrow>
             if pos c = pos last_cmd + int (length (ins_text last_cmd)) then
               merge_insert d c (last_cmd\<lparr>ins_text := ins_text last_cmd @ ins_text c\<rparr>)
             else push_command d cmd
         | (Delete c, Delete last_cmd) \<Rightarrow>
             if end_pos c = start last_cmd then
               merge_delete d c
                 (last_cmd\<lparr>deleted_text := deleted_text c @ deleted_text last_cmd,
                           start := start c\<rparr>)
             else if start c = start last_cmd then
               merge_delete d c
                 (last_cmd\<lparr>deleted_text := deleted_text last_cmd @ deleted_text c,
                           end_pos := end_pos c\<rparr>)
             else push_command d cmd
         | _ \<Rightarrow> push_command d cmd)
      else push_command d cmd)"

declare execute_command.simps [simp del]

text \<open>
  \<^verbatim>\<open>undo\<close> and \<^verbatim>\<open>redo\<close> return the pair \<^verbatim>\<open>(None, None)\<close> on an empty stack
  (\<open>Nothing\<close>), and otherwise the triple of cursor, selection and the window id of the
  command (\<open>Moved\<close>). Their argument \<^verbatim>\<open>window_id\<close> is not used by the code.
\<close>

datatype history_result = Nothing | Moved int selection int

definition undo :: "Document \<Rightarrow> int \<Rightarrow> history_result \<times> Document" where
  "undo d wid =
     (if undo_stack d = [] then (Nothing, d)
      else let cmd = last (undo_stack d)
           in case undo_command cmd (content d) of
                ((cursor, sel), s) \<Rightarrow>
                  (Moved cursor sel (command_window_id cmd),
                   d\<lparr>content := s, undo_stack := butlast (undo_stack d),
                     redo_stack := redo_stack d @ [cmd]\<rparr>))"

definition redo :: "Document \<Rightarrow> int \<Rightarrow> history_result \<times> Document" where
  "redo d wid =
     (if redo_stack d = [] then (Nothing, d)
      else let cmd = last (redo_stack d)
           in case execute cmd (content d) of
                ((cursor, sel), cmd', s) \<Rightarrow>
                  (Moved cursor sel (command_window_id cmd),
                   d\<lparr>content := s, redo_stack := butlast (redo_stack d),
                     undo_stack := undo_stack d @ [cmd']\<rparr>))"

section \<open>Offsets, rows and columns\<close>

text \<open>\<^verbatim>\<open>content.split('\n')\<close>: never empty, one more line than there are newlines.\<close>

fun split_lines :: "string \<Rightarrow> string list" where
  "split_lines [] = [[]]"
| "split_lines (c # cs) =
     (if c = CHR 0x0A then [] # split_lines cs
      else (case split_lines cs of [] \<Rightarrow> [[c]] | l # ls \<Rightarrow> (c # l) # ls))"

text \<open>The loop of \<^verbatim>\<open>get_position_from_index\<close> over \<^verbatim>\<open>enumerate(lines)\<close>;
  \<open>None\<close> when it ends without returning.\<close>

fun position_loop :: "string list \<Rightarrow> int \<Rightarrow> int \<Rightarrow> int \<Rightarrow> (int \<times> int) option" where
  "position_loop [] row current_pos p = None"
| "position_loop (line # ls) row current_pos p =
     (if current_pos + int (length line) \<ge> p then Some (row + 1, p - current_pos)
      else position_loop ls (row + 1) (current_pos + int (length line) + 1) p)"

definition get_position_from_index :: "string \<Rightarrow> int \<Rightarrow> int \<times> int" where
  "get_position_from_index doc_content p =
     (let lines = split_lines doc_content
      in case position_loop lines 0 0 p of
           Some rc \<Rightarrow> rc
         | None \<Rightarrow> (int (length lines), if lines \<noteq> [] then int (length (last lines)) else 0))"

text \<open>
  \<^verbatim>\<open>get_index_from_position\<close> asks the Tk widget for the \<^verbatim>\<open>row.col\<close> under a
  screen point and computes the offset from it; the model starts from that row and column.
  \<^verbatim>\<open>lines[row - 1]\<close> is a list index: a negative one counts from the end and raises
  \<^verbatim>\<open>IndexError\<close> when it falls before the first line.
\<close>

datatype py_error = IndexError

definition list_index :: "'a list \<Rightarrow> int \<Rightarrow> py_error + 'a" where
  "list_index xs i =
     (if 0 \<le> i \<and> i < int (length xs) then Inr (xs ! nat i)
      else if i < 0 \<and> - int (length xs) \<le> i then Inr (xs ! nat (i + int (length xs)))
      else Inl IndexError)"

definition get_index_from_position :: "string \<Rightarrow> int \<Rightarrow> int \<Rightarrow> py_error + int" where
  "get_index_from_position doc_content row col =
     (let lines = split_lines doc_content;
          p = fold (\<lambda>i p. if i < length lines then p + int (length (lines ! i)) + 1 else p)
                [0..<nat (row - 1)] 0
      in if row - 1 < int (length lines) then
           (case list_index lines (row - 1) of
              Inl e \<Rightarrow> Inl e
            | Inr line \<Rightarrow> Inr (p + min col (int (length line))))
         else Inr (p + min col 0))"

section \<open>Notions used in the statements and proofs\<close>

text \<open>The number of characters that a list of lines takes in the buffer, each line counted
  with the newline after it.\<close>

fun lines_len :: "string list \<Rightarrow> int" where
  "lines_len [] = 0"
| "lines_len (l # ls) = int (length l) + 1 + lines_len ls"

text \<open>
  The views edit the document in one way only: they build a command against the current
  content and hand it to \<^verbatim>\<open>execute_command\<close> at once (\<^verbatim>\<open>insert_text\<close>,
  \<^verbatim>\<open>handle_backspace\<close>, \<^verbatim>\<open>handle_delete\<close>). A request is the argument list of
  such a constructor call: text, offset, cursor, selection and window for an insertion;
  start, end, cursor, selection and window for a deletion.
\<close>

datatype request =
  InsertRequest string int int selection int
| DeleteRequest int int int selection int

fun build_command :: "Document \<Rightarrow> request \<Rightarrow> command" where
  "build_command d (InsertRequest txt p cur sel wid) =
     Insert (new_InsertCommand txt p cur sel wid)"
| "build_command d (DeleteRequest s e cur sel wid) =
     Delete (new_DeleteCommand (content d) s e cur sel wid)"

definition apply_request :: "Document \<Rightarrow> request \<Rightarrow> Document" where
  "apply_request d r = snd (execute_command d (build_command d r))"

fun apply_requests :: "Document \<Rightarrow> request list \<Rightarrow> Document" where
  "apply_requests d [] = d"
| "apply_requests d (r # rs) = apply_requests (apply_request d r) rs"

fun request_cursor :: "request \<Rightarrow> int" where
  "request_cursor (InsertRequest txt p cur sel wid) = cur"
| "request_cursor (DeleteRequest s e cur sel wid) = cur"

fun request_selection :: "request \<Rightarrow> selection" where
  "request_selection (InsertRequest txt p cur sel wid) = sel"
| "request_selection (DeleteRequest s e cur sel wid) = sel"

fun request_window :: "request \<Rightarrow> int" where
  "request_window (InsertRequest txt p cur sel wid) = wid"
| "request_window (DeleteRequest s e cur sel wid) = wid"

text \<open>A request lies in the buffer: an insertion point between 0 and the length, a
  deletion range with \<open>0 \<le> start \<le> end \<le> length\<close>.\<close>

fun in_bounds :: "string \<Rightarrow> request \<Rightarrow> bool" where
  "in_bounds s (InsertRequest txt p cur sel wid) = (0 \<le> p \<and> p \<le> int (length s))"
| "in_bounds s (DeleteRequest a e cur sel wid) = (0 \<le> a \<and> a \<le> e \<and> e \<le> int (length s))"

text \<open>Every request of a run lies in the buffer as it is when the request is made.\<close>

fun valid_run :: "Document \<Rightarrow> request list \<Rightarrow> bool" where
  "valid_run d [] = True"
| "valid_run d (r # rs) = (in_bounds (content d) r \<and> valid_run (apply_request d r) rs)"

text \<open>\<open>n\<close> calls of \<^verbatim>\<open>undo\<close>, with the list of their results.\<close>

fun undo_times :: "nat \<Rightarrow> int \<Rightarrow> Document \<Rightarrow> history_result list \<times> Document" where
  "undo_times 0 w d = ([], d)"
| "undo_times (Suc n) w d =
     (case undo d w of (r, d') \<Rightarrow>
        case undo_times n w d' of (rs, d'') \<Rightarrow> (r # rs, d''))"

definition moves :: "history_result list \<Rightarrow> history_result list" where
  "moves rs = filter (\<lambda>r. r \<noteq> Nothing) rs"

text \<open>The content that \<^verbatim>\<open>execute\<close> and \<^verbatim>\<open>undo\<close> of a command leave, and the
  content after running a list of commands forward, oldest first, or backward, newest
  first.\<close>

definition executed :: "command \<Rightarrow> string \<Rightarrow> string" where
  "executed c s = snd (snd (execute c s))"

definition undone :: "command \<Rightarrow> string \<Rightarrow> string" where
  "undone c s = snd (undo_command c s)"

definition replay :: "command list \<Rightarrow> string \<Rightarrow> string" where
  "replay cs s = fold executed cs s"

definition unwind :: "command list \<Rightarrow> string \<Rightarrow> string" where
  "unwind cs s = fold undone (rev cs) s"

fun command_start :: "command \<Rightarrow> int" where
  "command_start (Insert c) = pos c"
| "command_start (Delete c) = start c"

text \<open>A command fits a buffer: its offsets lie in the buffer and, for a deletion, its
  \<^verbatim>\<open>deleted_text\<close> is what the buffer holds in its range. A chain of commands fits
  when each fits the buffer that its predecessors leave.\<close>

fun well_built :: "command \<Rightarrow> string \<Rightarrow> bool" where
  "well_built (Insert c) s = (0 \<le> pos c \<and> pos c \<le> int (length s))"
| "well_built (Delete c) s =
     (0 \<le> start c \<and> start c \<le> end_pos c \<and> end_pos c \<le> int (length s) \<and>
      deleted_text c = slice s (start c) (end_pos c))"

fun chain :: "string \<Rightarrow> command list \<Rightarrow> bool" where
  "chain s [] = True"
| "chain s (c # cs) = (well_built c s \<and> chain (executed c s) cs)"

text \<open>The third branch of the grouping in \<^verbatim>\<open>execute_command\<close> (lines 94 to 101, the
  Delete key): the new deletion starts where the top deletion starts and does not end
  there.\<close>

definition forward_delete_merge :: "Document \<Rightarrow> command \<Rightarrow> bool" where
  "forward_delete_merge d cmd =
     (can_group_with_last d cmd \<and>
      (case (cmd, last (undo_stack d)) of
         (Delete c, Delete last_cmd) \<Rightarrow> end_pos c \<noteq> start last_cmd \<and> start c = start last_cmd
       | _ \<Rightarrow> False))"

text \<open>The first branch of the grouping in \<^verbatim>\<open>execute_command\<close> (lines 77 to 84): the
  new insertion is of the kind and the view of the top entry and starts where that entry's
  text ends.\<close>

definition insert_merges :: "Document \<Rightarrow> command \<Rightarrow> bool" where
  "insert_merges d cmd =
     (can_group_with_last d cmd \<and>
      (case (cmd, last (undo_stack d)) of
         (Insert c, Insert last_cmd) \<Rightarrow> pos c = pos last_cmd + int (length (ins_text last_cmd))
       | _ \<Rightarrow> False))"

text \<open>The documents that a document \<open>d0\<close> can become by requests in the buffer that do
  not take that third branch, by \<^verbatim>\<open>undo\<close> and by \<^verbatim>\<open>redo\<close>.\<close>

inductive reaches :: "Document \<Rightarrow> Document \<Rightarrow> bool" for d0 :: Document where
  reaches_start: "reaches d0 d0"
| reaches_apply: "reaches d0 d \<Longrightarrow> in_bounds (content d) r \<Longrightarrow>
     \<not> forward_delete_merge d (build_command d r) \<Longrightarrow> reaches d0 (apply_request d r)"
| reaches_undo: "reaches d0 d \<Longrightarrow> reaches d0 (snd (undo d w))"
| reaches_redo: "reaches d0 d \<Longrightarrow> reaches d0 (snd (redo d w))"

text \<open>What \<^verbatim>\<open>undo\<close> returns when it takes the command back.\<close>

definition restored :: "command \<Rightarrow> history_result" where
  "restored c =
     Moved (command_cursor_before c) (command_selection_before c) (command_window_id c)"

text \<open>The history of a document fits the content \<open>c0\<close> it started from: the undo stack
  followed by the redo stack, newest first, is a chain from \<open>c0\<close>, and the undo stack
  leads from \<open>c0\<close> to the present content.\<close>

definition history_fits :: "string \<Rightarrow> Document \<Rightarrow> bool" where
  "history_fits c0 d =
     (chain c0 (undo_stack d @ rev (redo_stack d)) \<and> replay (undo_stack d) c0 = content d)"

section \<open>Example documents\<close>

text \<open>The buffer \<^verbatim>\<open>hello\<close> after a view with cursor 4 and the selection
  \<^verbatim>\<open>(1, 4)\<close> has deleted its selection.\<close>

definition hello_doc :: Document where
  "hello_doc =
     snd (execute_command (Document_init ''notes.txt'' (Some ''hello''))
            (Delete (new_DeleteCommand ''hello'' 1 4 4 (Some (Some 1, Some 4)) 0)))"

text \<open>The buffer \<^verbatim>\<open>xy\<close> after one view has typed \<^verbatim>\<open>a\<close>, \<^verbatim>\<open>b\<close>,
  \<^verbatim>\<open>c\<close> at the offsets 1, 2, 3.\<close>

definition abc_doc :: Document where
  "abc_doc =
     snd (execute_command
       (snd (execute_command
         (snd (execute_command (Document_init ''notes.txt'' (Some ''xy''))
                (Insert (new_InsertCommand ''a'' 1 1 (Some (None, None)) 0))))
         (Insert (new_InsertCommand ''b'' 2 2 (Some (None, None)) 0))))
       (Insert (new_InsertCommand ''c'' 3 3 (Some (None, None)) 0)))"

text \<open>The buffer \<^verbatim>\<open>hello\<close> after one backspace at its end.\<close>

definition backspace_doc :: Document where
  "backspace_doc =
     snd (execute_command (Document_init ''notes.txt'' (Some ''hello''))
            (Delete (new_DeleteCommand ''hello'' 4 5 5 (Some (None, None)) 0)))"

text \<open>A new document after one view has typed \<^verbatim>\<open>a\<close>.\<close>

definition typed_a_doc :: Document where
  "typed_a_doc =
     apply_request (Document_init ''notes.txt'' None)
       (InsertRequest ''a'' 0 0 (Some (None, None)) 0)"

text \<open>The empty buffer after a view whose cursor was left at offset 5 has typed
  \<^verbatim>\<open>a\<close>, \<^verbatim>\<open>b\<close>, \<^verbatim>\<open>c\<close>; and the document in which \<^verbatim>\<open>a\<close> was typed
  after the same view has typed \<^verbatim>\<open>a\<close>, \<^verbatim>\<open>b\<close>, \<^verbatim>\<open>c\<close> behind it.\<close>

definition stale_abc_doc :: Document where
  "stale_abc_doc =
     apply_requests (Document_init ''notes.txt'' None)
       [InsertRequest ''a'' 5 5 (Some (None, None)) 0,
        InsertRequest ''b'' 6 6 (Some (None, None)) 0,
        InsertRequest ''c'' 7 7 (Some (None, None)) 0]"

definition history_abc_doc :: Document where
  "history_abc_doc =
     apply_requests typed_a_doc
       [InsertRequest ''a'' 1 1 (Some (None, None)) 0,
        InsertRequest ''b'' 2 2 (Some (None, None)) 0,
        InsertRequest ''c'' 3 3 (Some (None, None)) 0]"

section \<open>Slices with bounds that are not negative\<close>

lemma slice_to_nonneg: "0 \<le> i \<Longrightarrow> slice_to s i = take (nat i) s"
  by (simp add: slice_to_def slice_index_def min_def)

lemma slice_from_nonneg: "0 \<le> i \<Longrightarrow> slice_from s i = drop (nat i) s"
  by (simp add: slice_from_def slice_index_def min_def)

lemma slice_nonneg:
  "0 \<le> i \<Longrightarrow> 0 \<le> j \<Longrightarrow> slice s i j = drop (nat i) (take (nat j) s)"
  by (auto simp: slice_def slice_index_def Let_def min_def drop_take)

lemma drop_take_adjacent:
  assumes "i \<le> j" "j \<le> k"
  shows "drop i (take j s) @ drop j (take k s) = drop i (take k s)"
proof -
  have "take j (take k s) = take j s"
    using assms by (simp add: min_def)
  then have "take k s = take j s @ drop j (take k s)"
    using append_take_drop_id [of j "take k s"] by simp
  then have "drop i (take k s) = drop i (take j s @ drop j (take k s))"
    by simp
  also have "\<dots> = drop i (take j s) @ drop (i - length (take j s)) (drop j (take k s))"
    by simp
  also have "drop (i - length (take j s)) (drop j (take k s)) = drop j (take k s)"
    using assms by (cases "j \<le> length s") (simp_all add: min_def)
  finally show ?thesis by simp
qed

lemma slice_append_adjacent:
  assumes "0 \<le> i" "i \<le> j" "j \<le> k"
  shows "slice s i j @ slice s j k = slice s i k"
  using assms by (simp add: slice_nonneg drop_take_adjacent)

section \<open>Forward execution and the history stacks\<close>

lemma execute_selection: "snd (fst (execute cmd s)) = None"
  by (cases cmd) (simp_all add: InsertCommand_execute_def DeleteCommand_execute_def Let_def)

lemma execute_command_redo_stack: "redo_stack (snd (execute_command d cmd)) = []"
  by (auto simp: execute_command.simps push_command_def merge_insert_def merge_delete_def
      split: prod.splits command.splits)

lemma redo_moved:
  "redo_stack d \<noteq> [] \<Longrightarrow>
     fst (redo d w) =
       Moved (fst (fst (execute (last (redo_stack d)) (content d)))) None
         (command_window_id (last (redo_stack d)))"
  using execute_selection [of "last (redo_stack d)" "content d"]
  by (auto simp: redo_def Let_def split: prod.splits)

lemma undo_redo_stack:
  "undo_stack d \<noteq> [] \<Longrightarrow> redo_stack (snd (undo d w)) = redo_stack d @ [last (undo_stack d)]"
  by (auto simp: undo_def Let_def split: prod.splits)

lemma hello_doc_eq:
  "hello_doc =
     \<lparr>filename = ''notes.txt'', content = ''ho'',
      undo_stack =
        [Delete \<lparr>cursor_before = 4, selection_before = Some (Some 1, Some 4), window_id = 0,
           cursor_after = Some 1, selection_after = None,
           start = 1, end_pos = 4, deleted_text = ''ell''\<rparr>],
      redo_stack = [], last_command_type = Some DeleteCommandT\<rparr>"
  by (simp add: hello_doc_def Document_init_def execute_command.simps can_group_with_last_def
      push_command_def
      new_DeleteCommand_def DeleteCommand_execute_def slice_nonneg slice_to_nonneg
      slice_from_nonneg)

text \<open>
  Claim C3. Whatever branch \<^verbatim>\<open>execute_command\<close> takes (a merge into the top entry
  or a push), the redo stack is empty afterwards; so a redo that follows an undo and a new
  edit finds nothing and returns the boundary result.
\<close>

theorem redo_stack_cleared_by_edit:
  "redo_stack (snd (execute_command d cmd)) = [] \<and>
   fst (redo (snd (execute_command (snd (undo d w)) cmd)) w') = Nothing"
proof -
  have "redo_stack d' = [] \<Longrightarrow> fst (redo d' w') = Nothing" for d'
    by (simp add: redo_def)
  then show ?thesis
    using execute_command_redo_stack by blast
qed

text \<open>
  Claim C6. \<^verbatim>\<open>undo\<close> on an empty undo stack and \<^verbatim>\<open>redo\<close> on an empty redo
  stack return the boundary result \<^verbatim>\<open>(None, None)\<close>, raise nothing, and leave the
  whole document (content and both stacks) as it was.
\<close>

theorem empty_history_no_effect:
  "(undo_stack d = [] \<longrightarrow> undo d w = (Nothing, d)) \<and>
   (redo_stack d = [] \<longrightarrow> redo d w = (Nothing, d))"
  by (simp add: undo_def redo_def)

theorem empty_history_no_effect_witness:
  "undo_stack (Document_init ''notes.txt'' (Some ''ab'')) = [] \<and>
   redo_stack (Document_init ''notes.txt'' (Some ''ab'')) = [] \<and>
   undo (Document_init ''notes.txt'' (Some ''ab'')) 0 =
     (Nothing, Document_init ''notes.txt'' (Some ''ab'')) \<and>
   redo (Document_init ''notes.txt'' (Some ''ab'')) 0 =
     (Nothing, Document_init ''notes.txt'' (Some ''ab''))"
  using empty_history_no_effect [of "Document_init ''notes.txt'' (Some ''ab'')" 0]
  by (simp add: Document_init_def)

text \<open>
  Claim C10. Running a command forward always reports the selection \<^verbatim>\<open>None\<close>:
  by \<^verbatim>\<open>execute\<close> itself, by a \<^verbatim>\<open>redo\<close> that finds a command, and by the
  \<^verbatim>\<open>redo\<close> after an \<^verbatim>\<open>undo\<close>, whatever selection that undo restored.
\<close>

theorem forward_execution_clears_selection:
  "snd (fst (execute cmd s)) = None \<and>
   (redo_stack d \<noteq> [] \<longrightarrow>
      fst (redo d w) =
        Moved (fst (fst (execute (last (redo_stack d)) (content d)))) None
          (command_window_id (last (redo_stack d)))) \<and>
   (undo_stack d \<noteq> [] \<longrightarrow>
      fst (redo (snd (undo d w)) w') =
        Moved (fst (fst (execute (last (undo_stack d)) (content (snd (undo d w)))))) None
          (command_window_id (last (undo_stack d))))"
  using redo_moved [of d w] redo_moved [of "snd (undo d w)" w'] undo_redo_stack [of d w]
    execute_selection [of cmd s]
  by auto

theorem forward_execution_clears_selection_witness:
  "undo_stack hello_doc \<noteq> [] \<and>
   fst (undo hello_doc 0) = Moved 4 (Some (Some 1, Some 4)) 0 \<and>
   fst (redo (snd (undo hello_doc 0)) 0) = Moved 1 None 0"
  using forward_execution_clears_selection
    [of "Delete (new_DeleteCommand ''hello'' 1 4 4 (Some (Some 1, Some 4)) 0)" "''hello''"
      hello_doc 0 0]
  by (simp add: hello_doc_eq undo_def DeleteCommand_undo_def DeleteCommand_execute_def
      slice_to_nonneg slice_from_nonneg)

section \<open>Grouping\<close>

lemma push_on_empty:
  "undo_stack d = [] \<Longrightarrow> execute_command d cmd = push_command d cmd"
  by (simp add: execute_command.simps can_group_with_last_def)

lemma insert_merge:
  assumes "undo_stack d = us @ [Insert lc]"
    and "window_id c = window_id lc"
    and "pos c = pos lc + int (length (ins_text lc))"
  shows "execute_command d (Insert c) =
     ((pos c + int (length (ins_text c)), None),
      d\<lparr>content := slice_to (content d) (pos c) @ ins_text c @ slice_from (content d) (pos c),
        undo_stack := us @ [Insert (lc\<lparr>ins_text := ins_text lc @ ins_text c,
            cursor_after := Some (pos c + int (length (ins_text c))),
            selection_after := None\<rparr>)],
        redo_stack := []\<rparr>)"
  using assms
  by (simp add: execute_command.simps can_group_with_last_def merge_insert_def
      InsertCommand_execute_def Let_def)

lemma backspace_merge:
  assumes "undo_stack d = us @ [Delete lc]"
    and "window_id c = window_id lc"
    and "end_pos c = start lc"
  shows "execute_command d (Delete c) =
     ((start c, None),
      d\<lparr>content := slice_to (content d) (start c) @ slice_from (content d) (end_pos c),
        undo_stack := us @ [Delete (lc\<lparr>deleted_text := deleted_text c @ deleted_text lc,
            start := start c, cursor_after := Some (start c), selection_after := None\<rparr>)],
        redo_stack := []\<rparr>)"
  using assms
  by (simp add: execute_command.simps can_group_with_last_def merge_delete_def
      DeleteCommand_execute_def Let_def)

lemma backspace_doc_eq:
  "backspace_doc =
     \<lparr>filename = ''notes.txt'', content = ''hell'',
      undo_stack =
        [Delete \<lparr>cursor_before = 5, selection_before = Some (None, None), window_id = 0,
           cursor_after = Some 4, selection_after = None,
           start = 4, end_pos = 5, deleted_text = ''o''\<rparr>],
      redo_stack = [], last_command_type = Some DeleteCommandT\<rparr>"
  by (simp add: backspace_doc_def Document_init_def push_on_empty push_command_def
      new_DeleteCommand_def DeleteCommand_execute_def slice_nonneg slice_to_nonneg
      slice_from_nonneg)

lemma backspace_text_in_order:
  assumes "0 \<le> a" "a \<le> b" "b \<le> e" "e \<le> int (length orig)"
  shows "slice (slice_to orig b @ slice_from orig e) a b @ slice orig b e = slice orig a e"
proof -
  have "slice (slice_to orig b @ slice_from orig e) a b = slice orig a b"
    using assms by (simp add: slice_nonneg slice_to_nonneg min_def)
  then show ?thesis
    using assms slice_append_adjacent [of a b e orig] by simp
qed

text \<open>
  Claim C5. A delete command of the same view whose \<^verbatim>\<open>end\<close> is the \<^verbatim>\<open>start\<close> of
  the delete command on top of the undo stack is folded into that entry: the stack keeps its
  length, the entry starts at the new command's start and its \<^verbatim>\<open>deleted_text\<close> is the
  new command's text followed by the old one. When the top entry was built and run against a
  buffer \<open>orig\<close> and the new command is built against the result, that text is
  \<open>orig[start:end]\<close> over the merged range: the deleted characters in the order they had
  in the buffer.
\<close>

theorem backspace_run_merges:
  assumes "undo_stack d = us @ [Delete lc]"
    and "window_id c = window_id lc"
    and "end_pos c = start lc"
  shows "execute_command d (Delete c) =
     ((start c, None),
      d\<lparr>content := slice_to (content d) (start c) @ slice_from (content d) (end_pos c),
        undo_stack := us @ [Delete (lc\<lparr>deleted_text := deleted_text c @ deleted_text lc,
            start := start c, cursor_after := Some (start c), selection_after := None\<rparr>)],
        redo_stack := []\<rparr>) \<and>
    (0 \<le> start c \<and> start c \<le> start lc \<and> start lc \<le> end_pos lc \<and>
     end_pos lc \<le> int (length orig) \<and>
     deleted_text lc = slice orig (start lc) (end_pos lc) \<and>
     content d = slice_to orig (start lc) @ slice_from orig (end_pos lc) \<and>
     deleted_text c = slice (content d) (start c) (end_pos c) \<longrightarrow>
       deleted_text c @ deleted_text lc = slice orig (start c) (end_pos lc))"
  using backspace_merge [OF assms] assms(3)
    backspace_text_in_order [of "start c" "start lc" "end_pos lc" orig]
  by simp

theorem backspace_run_merges_witness:
  "undo_stack backspace_doc =
     [] @ [Delete \<lparr>cursor_before = 5, selection_before = Some (None, None), window_id = 0,
        cursor_after = Some 4, selection_after = None,
        start = 4, end_pos = 5, deleted_text = ''o''\<rparr>] \<and>
   content backspace_doc = slice_to ''hello'' 4 @ slice_from ''hello'' 5 \<and>
   undo_stack (snd (execute_command backspace_doc
       (Delete (new_DeleteCommand (content backspace_doc) 3 4 4 (Some (None, None)) 0)))) =
     [Delete \<lparr>cursor_before = 5, selection_before = Some (None, None), window_id = 0,
        cursor_after = Some 3, selection_after = None,
        start = 3, end_pos = 5, deleted_text = ''lo''\<rparr>] \<and>
   ''lo'' = slice ''hello'' 3 5"
  using backspace_run_merges
    [where d = backspace_doc and us = "[]" and orig = "''hello''"
      and c = "new_DeleteCommand (content backspace_doc) 3 4 4 (Some (None, None)) 0"
      and lc = "\<lparr>cursor_before = 5, selection_before = Some (None, None), window_id = 0,
        cursor_after = Some 4, selection_after = None,
        start = 4, end_pos = 5, deleted_text = ''o''\<rparr>"]
  by (simp add: backspace_doc_eq new_DeleteCommand_def slice_nonneg slice_to_nonneg
      slice_from_nonneg)

section \<open>Offsets, rows and columns: properties\<close>

lemma lines_len_nonneg: "0 \<le> lines_len ls"
  by (induction ls) simp_all

lemma lines_len_append: "lines_len (xs @ ys) = lines_len xs + lines_len ys"
  by (induction xs) simp_all

lemma split_lines_nonempty: "split_lines s \<noteq> []"
  by (induction s) (auto split: list.splits)

lemma lines_len_split_lines: "lines_len (split_lines s) = int (length s) + 1"
  using split_lines_nonempty
  by (induction s) (auto split: list.splits)

lemma position_loop_None:
  "current_pos + lines_len ls - 1 < p \<Longrightarrow> position_loop ls row current_pos p = None"
proof (induction ls arbitrary: row current_pos)
  case Nil
  then show ?case by simp
next
  case (Cons l ls)
  then show ?case
    using lines_len_nonneg [of ls] by simp
qed

lemma position_loop_end:
  "ls \<noteq> [] \<Longrightarrow> p = current_pos + lines_len ls - 1 \<Longrightarrow>
   position_loop ls row current_pos p = Some (row + int (length ls), int (length (last ls)))"
proof (induction ls arbitrary: row current_pos)
  case Nil
  then show ?case by simp
next
  case (Cons l ls)
  show ?case
  proof (cases "ls = []")
    case True
    with Cons.prems show ?thesis by simp
  next
    case False
    then have "0 < lines_len ls"
      using lines_len_nonneg [of "tl ls"] by (cases ls) simp_all
    with Cons.prems False Cons.IH [of "current_pos + int (length l) + 1" "row + 1"]
    show ?thesis by simp
  qed
qed

lemma position_loop_Some:
  assumes "position_loop ls r0 current_pos p = Some (row, col)" and "current_pos \<le> p"
  shows "r0 < row \<and> row \<le> r0 + int (length ls) \<and>
         col = p - (current_pos + lines_len (take (nat (row - r0 - 1)) ls)) \<and>
         0 \<le> col \<and> col \<le> int (length (ls ! nat (row - r0 - 1)))"
  using assms
proof (induction ls arbitrary: r0 current_pos)
  case Nil
  then show ?case by simp
next
  case (Cons l ls)
  show ?case
  proof (cases "current_pos + int (length l) \<ge> p")
    case True
    with Cons.prems show ?thesis by auto
  next
    case False
    with Cons.prems have
      rec: "position_loop ls (r0 + 1) (current_pos + int (length l) + 1) p = Some (row, col)"
      and le: "current_pos + int (length l) + 1 \<le> p"
      by simp_all
    from Cons.IH [OF rec le] have
      ih: "r0 + 1 < row" "row \<le> r0 + 1 + int (length ls)"
        "col = p - (current_pos + int (length l) + 1 + lines_len (take (nat (row - (r0 + 1) - 1)) ls))"
        "0 \<le> col" "col \<le> int (length (ls ! nat (row - (r0 + 1) - 1)))"
      by simp_all
    have k: "nat (row - r0 - 1) = Suc (nat (row - (r0 + 1) - 1))"
      using ih(1) by linarith
    show ?thesis
      using ih unfolding k by simp
  qed
qed

lemma row_fold:
  "n \<le> length ls \<Longrightarrow>
   fold (\<lambda>i p. if i < length ls then p + int (length (ls ! i)) + 1 else p) [0..<n] a =
     a + lines_len (take n ls)"
proof (induction n)
  case 0
  then show ?case by simp
next
  case (Suc n)
  then show ?case
    by (simp add: take_Suc_conv_app_nth lines_len_append)
qed

lemma position_loop_finds:
  "ls \<noteq> [] \<Longrightarrow> p \<le> current_pos + lines_len ls - 1 \<Longrightarrow>
   \<exists>rc. position_loop ls row current_pos p = Some rc"
proof (induction ls arbitrary: row current_pos)
  case Nil
  then show ?case by simp
next
  case (Cons l ls)
  show ?case
  proof (cases "current_pos + int (length l) \<ge> p")
    case True
    then show ?thesis by simp
  next
    case False
    with Cons.prems have "ls \<noteq> []"
      by (cases ls) simp_all
    with False Cons.prems Cons.IH [of "current_pos + int (length l) + 1" "row + 1"]
    show ?thesis by simp
  qed
qed

text \<open>
  Claim C7. For every buffer and every offset \<open>p\<close> with \<open>0 \<le> p \<le> len(content)\<close>, the
  row and column that \<^verbatim>\<open>get_position_from_index\<close> returns for \<open>p\<close> are mapped back
  to \<open>p\<close> by the offset computation of \<^verbatim>\<open>get_index_from_position\<close>, which raises
  nothing there.
\<close>

theorem offset_row_col_roundtrip:
  assumes "0 \<le> p" and "p \<le> int (length s)"
  shows "(case get_position_from_index s p of (row, col) \<Rightarrow> get_index_from_position s row col)
           = Inr p"
proof -
  let ?ls = "split_lines s"
  obtain row col where f: "position_loop ?ls 0 0 p = Some (row, col)"
    using position_loop_finds [of ?ls p 0 0] assms(2) lines_len_split_lines [of s]
      split_lines_nonempty [of s]
    by auto
  from position_loop_Some [OF f] assms(1) have
    r: "0 < row" "row \<le> int (length ?ls)"
    and c: "col = p - lines_len (take (nat (row - 1)) ?ls)"
      "0 \<le> col" "col \<le> int (length (?ls ! nat (row - 1)))"
    by simp_all
  have g: "get_position_from_index s p = (row, col)"
    using f by (simp add: get_position_from_index_def)
  have n: "nat (row - 1) \<le> length ?ls"
    using r by linarith
  have i: "list_index ?ls (row - 1) = Inr (?ls ! nat (row - 1))"
    using r by (simp add: list_index_def)
  have "get_index_from_position s row col = Inr p"
    using r c i row_fold [OF n, of 0]
    by (simp add: get_index_from_position_def Let_def)
  with g show ?thesis by simp
qed

theorem offset_row_col_roundtrip_witness:
  "(0::int) \<le> 4 \<and>
   4 \<le> int (length [CHR ''a'', CHR ''b'', CHR 0x0A, CHR ''c'', CHR ''d'']) \<and>
   get_position_from_index [CHR ''a'', CHR ''b'', CHR 0x0A, CHR ''c'', CHR ''d''] 4 = (2, 1) \<and>
   get_index_from_position [CHR ''a'', CHR ''b'', CHR 0x0A, CHR ''c'', CHR ''d''] 2 1 = Inr 4"
  using offset_row_col_roundtrip [of 4 "[CHR ''a'', CHR ''b'', CHR 0x0A, CHR ''c'', CHR ''d'']"]
  by (simp add: get_position_from_index_def)

text \<open>
  Claim C8, as stated, fails: \<^verbatim>\<open>get_position_from_index\<close> has no error exit. For the
  buffer \<^verbatim>\<open>ab\<close> the offset 5 gives row 1, column 2 (the end of the buffer) and the
  offset -3 gives row 1, column -3.
\<close>

theorem position_out_of_range_counterexample:
  "get_position_from_index ''ab'' 5 = (1, 2) \<and>
   get_position_from_index ''ab'' (- 3) = (1, - 3)"
  by (simp add: get_position_from_index_def)

text \<open>
  Claim C8, amended. The conversion returns for every offset. An offset beyond
  \<open>len(content)\<close> is clamped: the result is the last row with the length of the last line
  as column, the same as for the offset \<open>len(content)\<close>. A negative offset \<open>p\<close> gives
  row 1 and the column \<open>p\<close>.
\<close>

theorem position_out_of_range_clamped:
  "(int (length s) < p \<longrightarrow>
      get_position_from_index s p =
        (int (length (split_lines s)), int (length (last (split_lines s)))) \<and>
      get_position_from_index s p = get_position_from_index s (int (length s))) \<and>
   (p < 0 \<longrightarrow> get_position_from_index s p = (1, p))"
proof -
  have a: "get_position_from_index s p =
        (int (length (split_lines s)), int (length (last (split_lines s))))"
    if "int (length s) < p"
    using that position_loop_None [of 0 "split_lines s" p 0] lines_len_split_lines [of s]
      split_lines_nonempty [of s]
    by (simp add: get_position_from_index_def Let_def)
  have b: "get_position_from_index s (int (length s)) =
        (int (length (split_lines s)), int (length (last (split_lines s))))"
    using position_loop_end [of "split_lines s" "int (length s)" 0 0]
      lines_len_split_lines [of s] split_lines_nonempty [of s]
    by (simp add: get_position_from_index_def Let_def)
  have c: "get_position_from_index s p = (1, p)" if "p < 0"
    using that split_lines_nonempty [of s]
    by (cases "split_lines s") (simp_all add: get_position_from_index_def)
  from a b c show ?thesis by simp
qed

theorem position_out_of_range_clamped_witness:
  "int (length ''ab'') < 5 \<and> get_position_from_index ''ab'' 5 = (1, 2) \<and>
   get_position_from_index ''ab'' 5 = get_position_from_index ''ab'' 2 \<and>
   (- 3 :: int) < 0 \<and> get_position_from_index ''ab'' (- 3) = (1, - 3)"
  using position_out_of_range_clamped [of "''ab''" 5]
    position_out_of_range_clamped [of "''ab''" "- 3"]
  by (simp add: get_position_from_index_def)

section \<open>Requests outside the buffer\<close>

lemma execute_command_runs_execute:
  "fst (execute_command d cmd) = fst (execute cmd (content d)) \<and>
   content (snd (execute_command d cmd)) = snd (snd (execute cmd (content d)))"
  by (cases cmd; cases "last (undo_stack d)")
    (simp_all add: execute_command.simps push_command_def merge_insert_def merge_delete_def
      split: prod.splits)

text \<open>
  Claim C9, as stated, fails: no offset is checked. On the buffer \<^verbatim>\<open>ab\<close> an
  insertion at offset 5 returns normally, appends the text and reports the cursor 6, which
  is outside the new buffer; a deletion of the range \<open>(1, 10)\<close> returns normally and
  removes the range \<open>(1, 2)\<close>.
\<close>

theorem request_bounds_counterexample:
  "execute_command (Document_init ''notes.txt'' (Some ''ab''))
     (Insert (new_InsertCommand ''X'' 5 5 (Some (None, None)) 0)) =
   ((6, None),
    \<lparr>filename = ''notes.txt'', content = ''abX'',
     undo_stack = [Insert \<lparr>cursor_before = 5, selection_before = Some (None, None),
        window_id = 0, cursor_after = Some 6, selection_after = None,
        ins_text = ''X'', pos = 5\<rparr>],
     redo_stack = [], last_command_type = Some InsertCommandT\<rparr>) \<and>
   execute_command (Document_init ''notes.txt'' (Some ''ab''))
     (Delete (new_DeleteCommand ''ab'' 1 10 1 (Some (None, None)) 0)) =
   ((1, None),
    \<lparr>filename = ''notes.txt'', content = ''a'',
     undo_stack = [Delete \<lparr>cursor_before = 1, selection_before = Some (None, None),
        window_id = 0, cursor_after = Some 1, selection_after = None,
        start = 1, end_pos = 10, deleted_text = ''b''\<rparr>],
     redo_stack = [], last_command_type = Some DeleteCommandT\<rparr>)"
  by (simp add: Document_init_def push_on_empty push_command_def new_InsertCommand_def
      new_DeleteCommand_def InsertCommand_execute_def DeleteCommand_execute_def
      slice_nonneg slice_to_nonneg slice_from_nonneg)

text \<open>
  Claim C9, amended. Requests are not validated; the slices clamp them and nothing is
  raised. An insertion at or beyond the end of the buffer appends the text, an insertion at
  a negative offset \<open>p \<ge> - len(content)\<close> lands at \<open>len(content) + p\<close>, and both
  report the cursor \<open>p + len(text)\<close>; a deletion whose start is in the buffer and whose
  end is at or beyond its end removes the rest of the buffer from the start on, and records
  that rest as its \<^verbatim>\<open>deleted_text\<close>.
\<close>

theorem request_bounds_clamped:
  "(int (length (content d)) \<le> p \<longrightarrow>
      fst (execute_command d (Insert (new_InsertCommand t p cur sel w))) =
        (p + int (length t), None) \<and>
      content (snd (execute_command d (Insert (new_InsertCommand t p cur sel w)))) =
        content d @ t) \<and>
   (p < 0 \<and> - int (length (content d)) \<le> p \<longrightarrow>
      fst (execute_command d (Insert (new_InsertCommand t p cur sel w))) =
        (p + int (length t), None) \<and>
      content (snd (execute_command d (Insert (new_InsertCommand t p cur sel w)))) =
        take (nat (int (length (content d)) + p)) (content d) @ t @
        drop (nat (int (length (content d)) + p)) (content d)) \<and>
   (0 \<le> a \<and> a \<le> int (length (content d)) \<and> int (length (content d)) \<le> e \<longrightarrow>
      deleted_text (new_DeleteCommand (content d) a e cur sel w) = drop (nat a) (content d) \<and>
      fst (execute_command d (Delete (new_DeleteCommand (content d) a e cur sel w))) =
        (a, None) \<and>
      content (snd (execute_command d (Delete (new_DeleteCommand (content d) a e cur sel w)))) =
        take (nat a) (content d))"
  unfolding execute_command_runs_execute [THEN conjunct1]
    execute_command_runs_execute [THEN conjunct2]
  by (auto simp: new_InsertCommand_def new_DeleteCommand_def InsertCommand_execute_def
      DeleteCommand_execute_def slice_nonneg slice_to_nonneg slice_from_nonneg
      slice_to_def slice_from_def slice_index_def Let_def)

theorem request_bounds_clamped_witness:
  "int (length (content (Document_init ''notes.txt'' (Some ''ab'')))) \<le> 5 \<and>
   content (snd (execute_command (Document_init ''notes.txt'' (Some ''ab''))
      (Insert (new_InsertCommand ''X'' 5 5 (Some (None, None)) 0)))) = ''abX'' \<and>
   (- 1 :: int) < 0 \<and> - int (length (content (Document_init ''notes.txt'' (Some ''ab'')))) \<le> - 1 \<and>
   content (snd (execute_command (Document_init ''notes.txt'' (Some ''ab''))
      (Insert (new_InsertCommand ''X'' (- 1) 2 (Some (None, None)) 0)))) = ''aXb'' \<and>
   (0::int) \<le> 1 \<and> 1 \<le> int (length (content (Document_init ''notes.txt'' (Some ''ab'')))) \<and>
   int (length (content (Document_init ''notes.txt'' (Some ''ab'')))) \<le> 10 \<and>
   content (snd (execute_command (Document_init ''notes.txt'' (Some ''ab''))
      (Delete (new_DeleteCommand (content (Document_init ''notes.txt'' (Some ''ab''))) 1 10 5
         (Some (None, None)) 0)))) = ''a''"
  using request_bounds_clamped
      [of "Document_init ''notes.txt'' (Some ''ab'')" 5 "''X''" 5 "Some (None, None)" 0 1 10]
    request_bounds_clamped
      [of "Document_init ''notes.txt'' (Some ''ab'')" "- 1" "''X''" 2 "Some (None, None)" 0 1 10]
  by (simp add: Document_init_def)

section \<open>Running commands forward and backward\<close>

lemma executed_Insert:
  "executed (Insert c) s = slice_to s (pos c) @ ins_text c @ slice_from s (pos c)"
  by (simp add: executed_def InsertCommand_execute_def Let_def)

lemma executed_Delete:
  "executed (Delete c) s = slice_to s (start c) @ slice_from s (end_pos c)"
  by (simp add: executed_def DeleteCommand_execute_def Let_def)

lemma undone_Insert:
  "undone (Insert c) s = slice_to s (pos c) @ slice_from s (pos c + int (length (ins_text c)))"
  by (simp add: undone_def InsertCommand_undo_def)

lemma undone_Delete:
  "undone (Delete c) s = slice_to s (start c) @ deleted_text c @ slice_from s (start c)"
  by (simp add: undone_def DeleteCommand_undo_def)

lemma undo_command_result:
  "undo_command c s = ((command_cursor_before c, command_selection_before c), undone c s)"
  by (cases c) (simp_all add: undone_def InsertCommand_undo_def DeleteCommand_undo_def)

text \<open>The command that \<^verbatim>\<open>execute\<close> leaves differs from the one it ran in
  \<^verbatim>\<open>cursor_after\<close> and \<^verbatim>\<open>selection_after\<close> only.\<close>

lemma executed_command:
  "fst (snd (execute c s)) = c' \<Longrightarrow>
   executed c' t = executed c t \<and> undone c' t = undone c t \<and>
   well_built c' t = well_built c t \<and> command_start c' = command_start c \<and>
   command_cursor_before c' = command_cursor_before c \<and>
   command_selection_before c' = command_selection_before c \<and>
   command_window_id c' = command_window_id c"
  by (cases c)
    (auto simp: executed_Insert executed_Delete undone_Insert undone_Delete
      InsertCommand_execute_def DeleteCommand_execute_def Let_def)

lemma undone_executed: "well_built c s \<Longrightarrow> undone c (executed c s) = s"
proof (cases c)
  case (Insert i)
  assume "well_built c s"
  with Insert have b: "0 \<le> pos i" "nat (pos i) \<le> length s" by auto
  then have "nat (pos i + int (length (ins_text i))) = nat (pos i) + length (ins_text i)"
    by linarith
  with b Insert show ?thesis
    by (simp add: executed_Insert undone_Insert slice_to_nonneg slice_from_nonneg min_def)
next
  case (Delete x)
  assume "well_built c s"
  with Delete have b: "0 \<le> start x" "nat (start x) \<le> nat (end_pos x)" "nat (end_pos x) \<le> length s"
    "0 \<le> end_pos x" and t: "deleted_text x = slice s (start x) (end_pos x)"
    by auto
  have "take (nat (start x)) s @ drop (nat (start x)) (take (nat (end_pos x)) s) @ drop (nat (end_pos x)) s = s"
    using b(2,3)
    by (metis append_take_drop_id drop_take_adjacent append.assoc drop_0 le0)
  with b t Delete show ?thesis
    by (simp add: executed_Delete undone_Delete slice_to_nonneg slice_from_nonneg
        slice_nonneg min_def)
qed

lemma build_command_well_built:
  "in_bounds (content d) r \<Longrightarrow> well_built (build_command d r) (content d)"
  by (cases r) (simp_all add: new_InsertCommand_def new_DeleteCommand_def)

lemma build_command_before:
  "command_cursor_before (build_command d r) = request_cursor r \<and>
   command_selection_before (build_command d r) = request_selection r \<and>
   command_window_id (build_command d r) = request_window r"
  by (cases r) (simp_all add: new_InsertCommand_def new_DeleteCommand_def)

lemma forward_merge:
  assumes "undo_stack d = us @ [Delete lc]"
    and "window_id c = window_id lc"
    and "end_pos c \<noteq> start lc"
    and "start c = start lc"
  shows "execute_command d (Delete c) =
     ((start c, None),
      d\<lparr>content := slice_to (content d) (start c) @ slice_from (content d) (end_pos c),
        undo_stack := us @ [Delete (lc\<lparr>deleted_text := deleted_text lc @ deleted_text c,
            end_pos := end_pos c, cursor_after := Some (start c), selection_after := None\<rparr>)],
        redo_stack := []\<rparr>)"
  using assms
  by (simp add: execute_command.simps can_group_with_last_def merge_delete_def
      DeleteCommand_execute_def Let_def)

lemma push_command_result:
  "push_command d cmd =
     (fst (execute cmd (content d)),
      d\<lparr>content := executed cmd (content d),
        undo_stack := undo_stack d @ [fst (snd (execute cmd (content d)))],
        redo_stack := [], last_command_type := Some (type_of cmd)\<rparr>)"
  by (simp add: push_command_def executed_def split: prod.splits)

lemma execute_command_cases [case_names push insert backspace forward]:
  obtains "execute_command d cmd = push_command d cmd"
  | us lc c where "undo_stack d = us @ [Insert lc]" "cmd = Insert c"
      "window_id c = window_id lc" "pos c = pos lc + int (length (ins_text lc))"
  | us lc c where "undo_stack d = us @ [Delete lc]" "cmd = Delete c"
      "window_id c = window_id lc" "end_pos c = start lc"
  | us lc c where "undo_stack d = us @ [Delete lc]" "cmd = Delete c"
      "window_id c = window_id lc" "end_pos c \<noteq> start lc" "start c = start lc"
proof (cases "undo_stack d = []")
  case True
  then show ?thesis using that(1) by (simp add: push_on_empty)
next
  case False
  then obtain us x where u: "undo_stack d = us @ [x]"
    by (metis append_butlast_last_id)
  show ?thesis
  proof (cases cmd)
    case (Insert c)
    show ?thesis
    proof (cases x)
      case i: (Insert lc)
      show ?thesis
      proof (cases "window_id c = window_id lc \<and> pos c = pos lc + int (length (ins_text lc))")
        case True
        with u Insert i that(2) show ?thesis by blast
      next
        case False
        with u Insert i have "execute_command d cmd = push_command d cmd"
          by (auto simp: execute_command.simps can_group_with_last_def)
        then show ?thesis by (rule that(1))
      qed
    next
      case (Delete lc)
      with u Insert have "execute_command d cmd = push_command d cmd"
        by (simp add: execute_command.simps can_group_with_last_def)
      then show ?thesis by (rule that(1))
    qed
  next
    case (Delete c)
    show ?thesis
    proof (cases x)
      case (Insert lc)
      with u Delete have "execute_command d cmd = push_command d cmd"
        by (simp add: execute_command.simps can_group_with_last_def)
      then show ?thesis by (rule that(1))
    next
      case dl: (Delete lc)
      show ?thesis
      proof (cases "window_id c = window_id lc \<and> (end_pos c = start lc \<or> start c = start lc)")
        case True
        with u Delete dl that(3,4) show ?thesis by blast
      next
        case False
        with u Delete dl have "execute_command d cmd = push_command d cmd"
          by (auto simp: execute_command.simps can_group_with_last_def)
        then show ?thesis by (rule that(1))
      qed
    qed
  qed
qed

lemma unwind_snoc: "unwind (us @ [c]) s = unwind us (undone c s)"
  by (simp add: unwind_def)

lemma unwind_Nil: "unwind [] s = s"
  by (simp add: unwind_def)

lemma take_drop_take:
  "a \<le> b \<Longrightarrow> take a s @ drop a (take b s) = take b s"
  "a \<le> b \<Longrightarrow> take a s @ drop a (take b s) @ r = take b s @ r"
  using drop_take_adjacent [of 0 a b s] by simp_all

lemma drop_take_drop:
  "a \<le> b \<Longrightarrow> drop a (take b s) @ drop b s = drop a s"
  using drop_take_adjacent [of a b "max b (length s)" s]
  by (simp add: max_def split: if_splits)

lemma insert_merge_undone:
  assumes "0 \<le> pos lc" and "pos c = pos lc + int (length (ins_text lc))"
    and "pos c \<le> int (length s)"
  shows "undone (Insert (lc\<lparr>ins_text := ins_text lc @ ins_text c,
            cursor_after := x, selection_after := y\<rparr>)) (executed (Insert c) s) =
         undone (Insert lc) s"
proof -
  have n: "nat (pos c) = nat (pos lc) + length (ins_text lc)"
    "nat (pos lc + (int (length (ins_text lc)) + int (length (ins_text c)))) =
       nat (pos lc) + length (ins_text lc) + length (ins_text c)"
    "nat (pos lc + int (length (ins_text lc))) = nat (pos lc) + length (ins_text lc)"
    "nat (pos lc) + length (ins_text lc) \<le> length s" "0 \<le> pos c"
    using assms by linarith+
  show ?thesis
    using assms(1) n
    by (simp add: executed_Insert undone_Insert slice_to_nonneg slice_from_nonneg min_def)
qed

lemma backspace_merge_undone:
  assumes "0 \<le> start c" and "start c \<le> end_pos c" and "end_pos c \<le> int (length s)"
    and "end_pos c = start lc" and "deleted_text c = slice s (start c) (end_pos c)"
  shows "undone (Delete (lc\<lparr>deleted_text := deleted_text c @ deleted_text lc,
            start := start c, cursor_after := x, selection_after := y\<rparr>))
           (executed (Delete c) s) =
         undone (Delete lc) s"
proof -
  have n: "nat (start c) \<le> nat (end_pos c)" "nat (end_pos c) \<le> length s" "0 \<le> end_pos c"
    using assms by linarith+
  show ?thesis
    using assms(1,4,5) n
    by (simp add: executed_Delete undone_Delete slice_to_nonneg slice_from_nonneg
        slice_nonneg min_def take_drop_take)
qed

lemma forward_merge_undone:
  assumes "0 \<le> start c" and "start c \<le> end_pos c" and "end_pos c \<le> int (length s)"
    and "start c = start lc" and "deleted_text c = slice s (start c) (end_pos c)"
  shows "undone (Delete (lc\<lparr>deleted_text := deleted_text lc @ deleted_text c,
            end_pos := end_pos c, cursor_after := x, selection_after := y\<rparr>))
           (executed (Delete c) s) =
         undone (Delete lc) s"
proof -
  have n: "nat (start c) \<le> nat (end_pos c)" "nat (end_pos c) \<le> length s" "0 \<le> end_pos c"
    using assms by linarith+
  show ?thesis
    using assms(1,4,5) n
    by (simp add: executed_Delete undone_Delete slice_to_nonneg slice_from_nonneg
        slice_nonneg min_def drop_take_drop)
qed

lemma restored_hd_snoc:
  "restored (hd (us @ [c])) = (if us = [] then restored c else restored (hd us))"
  by (cases us) simp_all

lemma apply_request_step:
  assumes b: "in_bounds (content d) r"
    and nn: "\<forall>c\<in>set (undo_stack d). 0 \<le> command_start c"
  shows "unwind (undo_stack (apply_request d r)) (content (apply_request d r)) =
           unwind (undo_stack d) (content d) \<and>
         (\<forall>c\<in>set (undo_stack (apply_request d r)). 0 \<le> command_start c) \<and>
         undo_stack (apply_request d r) \<noteq> [] \<and>
         restored (hd (undo_stack (apply_request d r))) =
           (if undo_stack d = []
            then Moved (request_cursor r) (request_selection r) (request_window r)
            else restored (hd (undo_stack d)))"
proof -
  let ?cmd = "build_command d r"
  have wb: "well_built ?cmd (content d)"
    using b by (rule build_command_well_built)
  show ?thesis
  proof (cases d ?cmd rule: execute_command_cases)
    case push
    let ?c' = "fst (snd (execute ?cmd (content d)))"
    have e: "undone ?c' (executed ?cmd (content d)) = content d"
      "command_start ?c' = command_start ?cmd" "restored ?c' = restored ?cmd"
      using executed_command [OF refl, of ?cmd "content d"] undone_executed [OF wb]
      by (simp_all add: restored_def)
    have "0 \<le> command_start ?cmd"
      using wb by (cases ?cmd) simp_all
    with push e nn build_command_before [of d r] show ?thesis
      by (simp add: apply_request_def push_command_result unwind_snoc restored_hd_snoc
          restored_def)
  next
    case (insert us lc c)
    have p: "0 \<le> pos lc" "pos c \<le> int (length (content d))"
      using nn wb insert(1,2) by simp_all
    have "restored (Insert (lc\<lparr>ins_text := ins_text lc @ ins_text c,
            cursor_after := x, selection_after := y\<rparr>)) = restored (Insert lc)" for x y
      by (simp add: restored_def)
    with insert nn p insert_merge [OF insert(1,3,4)]
      insert_merge_undone [OF p(1) insert(4) p(2)]
    show ?thesis
      by (simp add: apply_request_def unwind_snoc restored_hd_snoc executed_Insert)
  next
    case (backspace us lc c)
    have p: "0 \<le> start c" "start c \<le> end_pos c" "end_pos c \<le> int (length (content d))"
      "deleted_text c = slice (content d) (start c) (end_pos c)"
      using wb backspace(2) by simp_all
    have "restored (Delete (lc\<lparr>deleted_text := t, start := a,
            cursor_after := x, selection_after := y\<rparr>)) = restored (Delete lc)" for t a x y
      by (simp add: restored_def)
    with backspace nn p backspace_merge [OF backspace(1,3,4)]
      backspace_merge_undone [OF p(1,2,3) backspace(4) p(4)]
    show ?thesis
      by (simp add: apply_request_def unwind_snoc restored_hd_snoc executed_Delete)
  next
    case (forward us lc c)
    have p: "0 \<le> start c" "start c \<le> end_pos c" "end_pos c \<le> int (length (content d))"
      "deleted_text c = slice (content d) (start c) (end_pos c)"
      using wb forward(2) by simp_all
    have "restored (Delete (lc\<lparr>deleted_text := t, end_pos := a,
            cursor_after := x, selection_after := y\<rparr>)) = restored (Delete lc)" for t a x y
      by (simp add: restored_def)
    with forward nn p forward_merge [OF forward(1,3,4,5)]
      forward_merge_undone [OF p(1,2,3) forward(5) p(4)]
    show ?thesis
      by (simp add: apply_request_def unwind_snoc restored_hd_snoc executed_Delete)
  qed
qed

section \<open>Undoing a run of requests\<close>

lemma apply_request_length:
  "length (undo_stack (apply_request d r)) \<le> Suc (length (undo_stack d))"
proof (cases d "build_command d r" rule: execute_command_cases)
  case push
  then show ?thesis by (simp add: apply_request_def push_command_result)
next
  case (insert us lc c)
  with insert_merge [OF insert(1,3,4)] show ?thesis by (simp add: apply_request_def)
next
  case (backspace us lc c)
  with backspace_merge [OF backspace(1,3,4)] show ?thesis by (simp add: apply_request_def)
next
  case (forward us lc c)
  with forward_merge [OF forward(1,3,4,5)] show ?thesis by (simp add: apply_request_def)
qed

lemma apply_requests_length:
  "length (undo_stack (apply_requests d rs)) \<le> length (undo_stack d) + length rs"
proof (induction rs arbitrary: d)
  case Nil
  then show ?case by simp
next
  case (Cons r rs)
  from Cons.IH [of "apply_request d r"] apply_request_length [of d r]
  show ?case by simp
qed

lemma apply_requests_inv:
  assumes "valid_run d rs" and "\<forall>c\<in>set (undo_stack d). 0 \<le> command_start c"
  shows "unwind (undo_stack (apply_requests d rs)) (content (apply_requests d rs)) =
           unwind (undo_stack d) (content d) \<and>
         (rs \<noteq> [] \<longrightarrow>
            undo_stack (apply_requests d rs) \<noteq> [] \<and>
            restored (hd (undo_stack (apply_requests d rs))) =
              (if undo_stack d = []
               then Moved (request_cursor (hd rs)) (request_selection (hd rs))
                      (request_window (hd rs))
               else restored (hd (undo_stack d))))"
  using assms
proof (induction rs arbitrary: d)
  case Nil
  then show ?case by simp
next
  case (Cons r rs)
  let ?d1 = "apply_request d r"
  from Cons.prems have b: "in_bounds (content d) r" and v: "valid_run ?d1 rs"
    by simp_all
  note st = apply_request_step [OF b Cons.prems(2)]
  from st have nn: "\<forall>c\<in>set (undo_stack ?d1). 0 \<le> command_start c"
    by blast
  note ih = Cons.IH [OF v nn]
  show ?case
  proof (cases "rs = []")
    case True
    with st show ?thesis by simp
  next
    case False
    with st ih show ?thesis by simp
  qed
qed

lemma undo_result:
  "undo_stack d \<noteq> [] \<Longrightarrow>
   undo d w =
     (restored (last (undo_stack d)),
      d\<lparr>content := undone (last (undo_stack d)) (content d),
        undo_stack := butlast (undo_stack d),
        redo_stack := redo_stack d @ [last (undo_stack d)]\<rparr>)"
  by (simp add: undo_def undo_command_result restored_def Let_def)

lemma undo_times_empty:
  "undo_stack d = [] \<Longrightarrow> undo_times n w d = (replicate n Nothing, d)"
  by (induction n) (simp_all add: undo_def)

lemma undo_times_all:
  "length (undo_stack d) \<le> n \<Longrightarrow>
   content (snd (undo_times n w d)) = unwind (undo_stack d) (content d) \<and>
   undo_stack (snd (undo_times n w d)) = [] \<and>
   (undo_stack d \<noteq> [] \<longrightarrow>
      moves (fst (undo_times n w d)) \<noteq> [] \<and>
      last (moves (fst (undo_times n w d))) = restored (hd (undo_stack d)))"
proof (induction n arbitrary: d)
  case 0
  then show ?case by (simp add: unwind_Nil)
next
  case (Suc n)
  show ?case
  proof (cases "undo_stack d = []")
    case True
    with undo_times_empty [OF True, of "Suc n" w] show ?thesis
      by (simp add: unwind_Nil del: undo_times.simps)
  next
    case False
    then obtain us c where u: "undo_stack d = us @ [c]"
      by (metis append_butlast_last_id)
    let ?d' = "d\<lparr>content := undone c (content d), undo_stack := us,
        redo_stack := redo_stack d @ [c]\<rparr>"
    have un: "undo d w = (restored c, ?d')"
      using undo_result [OF False, of w] u by simp
    have len: "length (undo_stack ?d') \<le> n"
      using Suc.prems u by simp
    note ih = Suc.IH [OF len]
    have m: "moves (restored c # rs) = restored c # moves rs" for rs
      by (simp add: moves_def restored_def)
    obtain rs d'' where t: "undo_times n w ?d' = (rs, d'')"
      by (cases "undo_times n w ?d'")
    with un have t': "undo_times (Suc n) w d = (restored c # rs, d'')"
      by simp
    show ?thesis
    proof (cases "us = []")
      case True
      with t undo_times_empty [of ?d' n w] have "rs = replicate n Nothing" "d'' = ?d'"
        by simp_all
      with True u show ?thesis
        unfolding t' by (simp add: unwind_def moves_def restored_def)
    next
      case False
      with u ih show ?thesis
        unfolding t' t by (simp add: unwind_snoc m)
    qed
  qed
qed

lemma typed_a_doc_eq:
  "typed_a_doc =
     \<lparr>filename = ''notes.txt'', content = ''a'',
      undo_stack =
        [Insert \<lparr>cursor_before = 0, selection_before = Some (None, None), window_id = 0,
           cursor_after = Some 1, selection_after = None, ins_text = ''a'', pos = 0\<rparr>],
      redo_stack = [], last_command_type = Some InsertCommandT\<rparr>"
  by (simp add: typed_a_doc_def apply_request_def Document_init_def push_on_empty
      push_command_def new_InsertCommand_def InsertCommand_execute_def slice_to_nonneg
      slice_from_nonneg)

text \<open>
  Claim C1, as stated, fails in two ways. A command whose offset lies outside the buffer is
  accepted, and its \<^verbatim>\<open>undo\<close> does not take its \<^verbatim>\<open>execute\<close> back: on the empty
  buffer, inserting \<^verbatim>\<open>X\<close> at offset 5 gives \<^verbatim>\<open>X\<close>, and the undo leaves
  \<^verbatim>\<open>X\<close>. And a run of requests on a document that has a history may be grouped with
  the entry on top of it: after \<^verbatim>\<open>a\<close> was typed, the one request that types
  \<^verbatim>\<open>b\<close> behind it followed by one \<^verbatim>\<open>undo\<close> leaves the empty buffer, not
  \<^verbatim>\<open>a\<close>, and returns the cursor 0, not the cursor 1 from before the request.
\<close>

theorem undo_roundtrip_counterexample:
  "execute (Insert (new_InsertCommand ''X'' 5 5 (Some (None, None)) 0)) [] =
     ((6, None),
      Insert \<lparr>cursor_before = 5, selection_before = Some (None, None), window_id = 0,
        cursor_after = Some 6, selection_after = None, ins_text = ''X'', pos = 5\<rparr>,
      ''X'') \<and>
   undo_command
     (Insert \<lparr>cursor_before = 5, selection_before = Some (None, None), window_id = 0,
        cursor_after = Some 6, selection_after = None, ins_text = ''X'', pos = 5\<rparr>) ''X'' =
     ((5, Some (None, None)), ''X'') \<and>
   content typed_a_doc = ''a'' \<and>
   in_bounds (content typed_a_doc) (InsertRequest ''b'' 1 1 (Some (None, None)) 0) \<and>
   undo_times 1 0
     (apply_requests typed_a_doc [InsertRequest ''b'' 1 1 (Some (None, None)) 0]) =
     ([Moved 0 (Some (None, None)) 0],
      \<lparr>filename = ''notes.txt'', content = [], undo_stack = [],
       redo_stack =
         [Insert \<lparr>cursor_before = 0, selection_before = Some (None, None), window_id = 0,
            cursor_after = Some 2, selection_after = None, ins_text = ''ab'', pos = 0\<rparr>],
       last_command_type = Some InsertCommandT\<rparr>)"
proof -
  have "apply_requests typed_a_doc [InsertRequest ''b'' 1 1 (Some (None, None)) 0] =
     \<lparr>filename = ''notes.txt'', content = ''ab'',
      undo_stack =
        [Insert \<lparr>cursor_before = 0, selection_before = Some (None, None), window_id = 0,
           cursor_after = Some 2, selection_after = None, ins_text = ''ab'', pos = 0\<rparr>],
      redo_stack = [], last_command_type = Some InsertCommandT\<rparr>"
    by (simp add: typed_a_doc_eq apply_request_def execute_command.simps
        can_group_with_last_def merge_insert_def new_InsertCommand_def
        InsertCommand_execute_def slice_to_nonneg slice_from_nonneg)
  then show ?thesis
    by (simp add: typed_a_doc_eq new_InsertCommand_def InsertCommand_execute_def
        InsertCommand_undo_def undo_def slice_to_nonneg slice_from_nonneg)
qed

text \<open>
  Claim C1, amended. For every command built against a buffer with its offsets inside that
  buffer (an insertion point between 0 and the length, a range with
  \<open>0 \<le> start \<le> end \<le> length\<close>), \<^verbatim>\<open>execute\<close> and then \<^verbatim>\<open>undo\<close> leave the content
  as it was, and \<^verbatim>\<open>undo\<close> returns the cursor and selection given at construction.
  Consequently, on a document whose undo stack is empty, a run of such requests followed by
  as many calls of \<^verbatim>\<open>undo\<close> restores the content and empties the undo stack, and the
  last of these calls that finds an entry returns the cursor, selection and window of the
  first request.
\<close>

theorem undo_roundtrip:
  "(in_bounds (content d) r \<longrightarrow>
      (case execute (build_command d r) (content d) of
         (res, cmd', s') \<Rightarrow> undo_command cmd' s') =
        ((request_cursor r, request_selection r), content d)) \<and>
   (undo_stack d = [] \<and> valid_run d rs \<longrightarrow>
      content (snd (undo_times (length rs) w (apply_requests d rs))) = content d \<and>
      undo_stack (snd (undo_times (length rs) w (apply_requests d rs))) = [] \<and>
      (rs \<noteq> [] \<longrightarrow>
         last (moves (fst (undo_times (length rs) w (apply_requests d rs)))) =
           Moved (request_cursor (hd rs)) (request_selection (hd rs))
             (request_window (hd rs))))"
proof -
  have one: "(case execute (build_command d r) (content d) of
         (res, cmd', s') \<Rightarrow> undo_command cmd' s') =
        ((request_cursor r, request_selection r), content d)"
    if "in_bounds (content d) r"
  proof -
    let ?cmd = "build_command d r"
    obtain res cmd' s' where e: "execute ?cmd (content d) = (res, cmd', s')"
      by (cases "execute ?cmd (content d)")
    then have s': "s' = executed ?cmd (content d)"
      by (simp add: executed_def)
    from e have "fst (snd (execute ?cmd (content d))) = cmd'"
      by simp
    note ec = executed_command [OF this]
    have "undone cmd' s' = content d"
      using ec undone_executed [OF build_command_well_built [OF that]] s' by simp
    with e ec build_command_before [of d r] show ?thesis
      by (simp add: undo_command_result)
  qed
  have many: "content (snd (undo_times (length rs) w (apply_requests d rs))) = content d \<and>
      undo_stack (snd (undo_times (length rs) w (apply_requests d rs))) = [] \<and>
      (rs \<noteq> [] \<longrightarrow>
         last (moves (fst (undo_times (length rs) w (apply_requests d rs)))) =
           Moved (request_cursor (hd rs)) (request_selection (hd rs))
             (request_window (hd rs)))"
    if e: "undo_stack d = []" and v: "valid_run d rs"
  proof -
    have nn: "\<forall>c\<in>set (undo_stack d). 0 \<le> command_start c"
      using e by simp
    have len: "length (undo_stack (apply_requests d rs)) \<le> length rs"
      using apply_requests_length [of d rs] e by simp
    from apply_requests_inv [OF v nn] undo_times_all [OF len, of w] e
    show ?thesis by (simp add: unwind_Nil)
  qed
  from one many show ?thesis by blast
qed

theorem undo_roundtrip_witness:
  "in_bounds (content (Document_init ''notes.txt'' (Some ''ab'')))
     (InsertRequest ''X'' 1 1 (Some (None, None)) 0) \<and>
   undo_stack (Document_init ''notes.txt'' (Some ''ab'')) = [] \<and>
   valid_run (Document_init ''notes.txt'' (Some ''ab''))
     [InsertRequest ''X'' 1 1 (Some (None, None)) 0,
      DeleteRequest 0 1 2 (Some (None, None)) 1] \<and>
   content (apply_requests (Document_init ''notes.txt'' (Some ''ab''))
     [InsertRequest ''X'' 1 1 (Some (None, None)) 0,
      DeleteRequest 0 1 2 (Some (None, None)) 1]) = ''Xb'' \<and>
   content (snd (undo_times 2 0
     (apply_requests (Document_init ''notes.txt'' (Some ''ab''))
       [InsertRequest ''X'' 1 1 (Some (None, None)) 0,
        DeleteRequest 0 1 2 (Some (None, None)) 1]))) = ''ab'' \<and>
   last (moves (fst (undo_times 2 0
     (apply_requests (Document_init ''notes.txt'' (Some ''ab''))
       [InsertRequest ''X'' 1 1 (Some (None, None)) 0,
        DeleteRequest 0 1 2 (Some (None, None)) 1])))) = Moved 1 (Some (None, None)) 0"
proof -
  have a: "apply_request (Document_init ''notes.txt'' (Some ''ab''))
      (InsertRequest ''X'' 1 1 (Some (None, None)) 0) =
     \<lparr>filename = ''notes.txt'', content = ''aXb'',
      undo_stack =
        [Insert \<lparr>cursor_before = 1, selection_before = Some (None, None), window_id = 0,
           cursor_after = Some 2, selection_after = None, ins_text = ''X'', pos = 1\<rparr>],
      redo_stack = [], last_command_type = Some InsertCommandT\<rparr>"
    by (simp add: apply_request_def Document_init_def push_on_empty push_command_def
        new_InsertCommand_def InsertCommand_execute_def slice_to_nonneg slice_from_nonneg)
  have b: "content (apply_request
     \<lparr>filename = ''notes.txt'', content = ''aXb'',
      undo_stack =
        [Insert \<lparr>cursor_before = 1, selection_before = Some (None, None), window_id = 0,
           cursor_after = Some 2, selection_after = None, ins_text = ''X'', pos = 1\<rparr>],
      redo_stack = [], last_command_type = Some InsertCommandT\<rparr>
      (DeleteRequest 0 1 2 (Some (None, None)) 1)) = ''Xb''"
    by (simp add: apply_request_def execute_command.simps can_group_with_last_def
        push_command_def new_DeleteCommand_def DeleteCommand_execute_def slice_to_nonneg
        slice_from_nonneg slice_nonneg)
  have n: "length [InsertRequest ''X'' 1 1 (Some (None, None)) 0,
      DeleteRequest 0 1 2 (Some (None, None)) 1] = 2"
    by simp
  show ?thesis
    using undo_roundtrip
      [of "Document_init ''notes.txt'' (Some ''ab'')"
        "InsertRequest ''X'' 1 1 (Some (None, None)) 0"
        "[InsertRequest ''X'' 1 1 (Some (None, None)) 0,
          DeleteRequest 0 1 2 (Some (None, None)) 1]" 0]
    unfolding n
    by (simp add: a b) (simp add: Document_init_def)
qed

section \<open>The undo stack as a record of the content\<close>

lemma replay_Nil: "replay [] s = s"
  by (simp add: replay_def)

lemma replay_Cons: "replay (c # cs) s = replay cs (executed c s)"
  by (simp add: replay_def)

lemma replay_snoc: "replay (cs @ [c]) s = executed c (replay cs s)"
  by (simp add: replay_def)

lemma chain_append: "chain s (xs @ ys) = (chain s xs \<and> chain (replay xs s) ys)"
  by (induction xs arbitrary: s) (simp_all add: replay_Nil replay_Cons)

lemma insert_merge_executed:
  assumes "0 \<le> pos lc" and "pos lc \<le> int (length s)"
    and "pos c = pos lc + int (length (ins_text lc))"
  shows "executed (Insert (lc\<lparr>ins_text := ins_text lc @ ins_text c,
            cursor_after := x, selection_after := y\<rparr>)) s =
         executed (Insert c) (executed (Insert lc) s)"
proof -
  have n: "nat (pos c) = nat (pos lc) + length (ins_text lc)" "0 \<le> pos c"
    "nat (pos lc) \<le> length s"
    using assms by linarith+
  show ?thesis
    using assms(1) n
    by (simp add: executed_Insert slice_to_nonneg slice_from_nonneg min_def)
qed

lemma backspace_merge_executed:
  assumes "0 \<le> start c" and "start c \<le> start lc" and "start lc \<le> end_pos lc"
    and "end_pos lc \<le> int (length s)" and "end_pos c = start lc"
  shows "executed (Delete (lc\<lparr>deleted_text := t, start := start c,
            cursor_after := x, selection_after := y\<rparr>)) s =
         executed (Delete c) (executed (Delete lc) s)"
proof -
  have n: "nat (start c) \<le> nat (start lc)" "nat (start lc) \<le> nat (end_pos lc)"
    "nat (end_pos lc) \<le> length s" "0 \<le> start lc" "0 \<le> end_pos lc"
    using assms by linarith+
  show ?thesis
    using assms(1,5) n
    by (simp add: executed_Delete slice_to_nonneg slice_from_nonneg min_def)
qed

lemma forward_case_is_forward_delete_merge:
  assumes "undo_stack d = us @ [Delete lc]" and "window_id c = window_id lc"
    and "end_pos c \<noteq> start lc" and "start c = start lc"
  shows "forward_delete_merge d (Delete c)"
  using assms by (simp add: forward_delete_merge_def can_group_with_last_def)

lemma history_fits_apply:
  assumes f: "history_fits c0 d" and b: "in_bounds (content d) r"
    and nf: "\<not> forward_delete_merge d (build_command d r)"
  shows "history_fits c0 (apply_request d r)"
proof -
  let ?cmd = "build_command d r"
  have wb: "well_built ?cmd (content d)"
    using b by (rule build_command_well_built)
  from f have ch: "chain c0 (undo_stack d)" and rp: "replay (undo_stack d) c0 = content d"
    by (simp_all add: history_fits_def chain_append)
  show ?thesis
  proof (cases d ?cmd rule: execute_command_cases)
    case push
    let ?c' = "fst (snd (execute ?cmd (content d)))"
    have "well_built ?c' (content d)" "executed ?c' (content d) = executed ?cmd (content d)"
      using executed_command [OF refl, of ?cmd "content d"] wb by simp_all
    with push ch rp show ?thesis
      by (simp add: history_fits_def apply_request_def push_command_result chain_append
          replay_snoc)
  next
    case (insert us lc c)
    from ch rp insert(1) have
      p: "chain c0 us" "0 \<le> pos lc" "pos lc \<le> int (length (replay us c0))"
        "content d = executed (Insert lc) (replay us c0)"
      by (simp_all add: chain_append replay_snoc)
    from insert p insert_merge [OF insert(1,3,4)]
      insert_merge_executed [OF p(2,3) insert(4)]
    show ?thesis
      by (simp add: history_fits_def apply_request_def chain_append replay_snoc
          executed_Insert)
  next
    case (backspace us lc c)
    from ch rp backspace(1) have
      p: "chain c0 us" "0 \<le> start lc" "start lc \<le> end_pos lc"
        "end_pos lc \<le> int (length (replay us c0))"
        "deleted_text lc = slice (replay us c0) (start lc) (end_pos lc)"
        "content d = executed (Delete lc) (replay us c0)"
      by (simp_all add: chain_append replay_snoc)
    have q: "0 \<le> start c" "start c \<le> start lc"
      "deleted_text c = slice (content d) (start c) (start lc)"
      using wb backspace(2,4) by simp_all
    have t: "deleted_text c @ deleted_text lc = slice (replay us c0) (start c) (end_pos lc)"
      using backspace_text_in_order [OF q(1,2) p(3,4)] q(3) p(5,6)
      by (simp add: executed_Delete)
    from backspace p q t backspace_merge [OF backspace(1,3,4)]
      backspace_merge_executed [OF q(1,2) p(3,4) backspace(4)]
    show ?thesis
      by (simp add: history_fits_def apply_request_def chain_append replay_snoc
          executed_Delete)
  next
    case (forward us lc c)
    with nf forward_case_is_forward_delete_merge [OF forward(1,3,4,5)]
    show ?thesis by simp
  qed
qed

lemma history_fits_undo:
  assumes "history_fits c0 d"
  shows "history_fits c0 (snd (undo d w))"
proof (cases "undo_stack d = []")
  case True
  with assms show ?thesis by (simp add: undo_def)
next
  case False
  then obtain us c where u: "undo_stack d = us @ [c]"
    by (metis append_butlast_last_id)
  from assms u have "well_built c (replay us c0)" "content d = executed c (replay us c0)"
    by (simp_all add: history_fits_def chain_append replay_snoc)
  then have "undone c (content d) = replay us c0"
    using undone_executed by simp
  with assms u undo_result [OF False, of w] show ?thesis
    by (simp add: history_fits_def)
qed

lemma history_fits_redo:
  assumes "history_fits c0 d"
  shows "history_fits c0 (snd (redo d w))"
proof (cases "redo_stack d = []")
  case True
  with assms show ?thesis by (simp add: redo_def)
next
  case False
  then obtain rs c where u: "redo_stack d = rs @ [c]"
    by (metis append_butlast_last_id)
  let ?c' = "fst (snd (execute c (content d)))"
  have r: "snd (redo d w) = d\<lparr>content := executed c (content d), redo_stack := rs,
       undo_stack := undo_stack d @ [?c']\<rparr>"
    using u by (simp add: redo_def executed_def Let_def split: prod.splits)
  have e: "well_built ?c' t = well_built c t" "executed ?c' t = executed c t" for t
    using executed_command [OF refl, of c "content d" t] by simp_all
  from assms u have rp: "replay (undo_stack d) c0 = content d"
    and ch: "chain c0 (undo_stack d)" "well_built c (content d)"
      "chain (executed c (content d)) (rev rs)"
    by (auto simp: history_fits_def chain_append)
  then show ?thesis
    unfolding r by (simp add: history_fits_def chain_append replay_snoc e)
qed

text \<open>
  The third branch of the grouping keeps the top entry's \<^verbatim>\<open>start\<close> and overwrites
  its \<^verbatim>\<open>end\<close> with the new command's end, which is an offset of the buffer after the
  first deletion. On \<^verbatim>\<open>abcd\<close>, two presses of the Delete key at offset 0 leave
  \<^verbatim>\<open>cd\<close> and one entry with the range \<open>(0, 1)\<close> and the text \<^verbatim>\<open>ab\<close>; running
  that entry forward from \<^verbatim>\<open>abcd\<close> gives \<^verbatim>\<open>bcd\<close>.
\<close>

lemma forward_delete_merge_example:
  "apply_requests (Document_init ''notes.txt'' (Some ''abcd''))
     [DeleteRequest 0 1 0 (Some (None, None)) 0, DeleteRequest 0 1 0 (Some (None, None)) 0] =
     \<lparr>filename = ''notes.txt'', content = ''cd'',
      undo_stack =
        [Delete \<lparr>cursor_before = 0, selection_before = Some (None, None), window_id = 0,
           cursor_after = Some 0, selection_after = None,
           start = 0, end_pos = 1, deleted_text = ''ab''\<rparr>],
      redo_stack = [], last_command_type = Some DeleteCommandT\<rparr> \<and>
   replay
     [Delete \<lparr>cursor_before = 0, selection_before = Some (None, None), window_id = 0,
        cursor_after = Some 0, selection_after = None,
        start = 0, end_pos = 1, deleted_text = ''ab''\<rparr>] ''abcd'' = ''bcd''"
  by (simp add: apply_request_def Document_init_def execute_command.simps
      can_group_with_last_def push_command_def merge_delete_def new_DeleteCommand_def
      DeleteCommand_execute_def replay_def executed_Delete slice_to_nonneg slice_from_nonneg
      slice_nonneg)

text \<open>
  Claim C4, as stated, fails: a document starts with the text of its file and an empty undo
  stack, so replaying the undo stack on the empty buffer gives the empty buffer, not the
  content; and after a first edit the replay on the empty buffer gives the effect of that
  edit on the empty buffer. Here the file holds \<^verbatim>\<open>ab\<close> and the edit types
  \<^verbatim>\<open>X\<close> at offset 1.
\<close>

theorem replay_from_empty_counterexample:
  "content (Document_init ''notes.txt'' (Some ''ab'')) = ''ab'' \<and>
   replay (undo_stack (Document_init ''notes.txt'' (Some ''ab''))) [] = [] \<and>
   content (apply_request (Document_init ''notes.txt'' (Some ''ab''))
     (InsertRequest ''X'' 1 1 (Some (None, None)) 0)) = ''aXb'' \<and>
   replay (undo_stack (apply_request (Document_init ''notes.txt'' (Some ''ab''))
     (InsertRequest ''X'' 1 1 (Some (None, None)) 0))) [] = ''X''"
  by (simp add: apply_request_def Document_init_def push_on_empty push_command_def
      new_InsertCommand_def InsertCommand_execute_def replay_def executed_Insert
      slice_to_nonneg slice_from_nonneg)

text \<open>
  Claim C4, amended. Take a document as \<^verbatim>\<open>Document.__init__\<close> makes it and let it be
  changed by requests that lie in the buffer at the time they are made, by \<^verbatim>\<open>undo\<close>
  and by \<^verbatim>\<open>redo\<close>, the requests that take the third branch of the grouping (a forward
  delete merged into the top entry) aside. Then in every state, running the commands of the
  undo stack forward, oldest first, on the content that the document was loaded with gives
  the present content.
\<close>

theorem replay_from_loaded_content:
  assumes "reaches (Document_init fname file) d"
  shows "replay (undo_stack d) (content (Document_init fname file)) = content d"
proof -
  have "history_fits (content (Document_init fname file)) d"
    using assms
  proof (induction rule: reaches.induct)
    case reaches_start
    show ?case by (simp add: history_fits_def Document_init_def replay_Nil)
  next
    case (reaches_apply d r)
    then show ?case by (simp add: history_fits_apply)
  next
    case (reaches_undo d w)
    then show ?case by (simp add: history_fits_undo)
  next
    case (reaches_redo d w)
    then show ?case by (simp add: history_fits_redo)
  qed
  then show ?thesis by (simp add: history_fits_def)
qed

theorem replay_from_loaded_content_witness:
  "reaches (Document_init ''notes.txt'' (Some ''ab''))
     (snd (undo (apply_request (Document_init ''notes.txt'' (Some ''ab''))
        (InsertRequest ''X'' 1 1 (Some (None, None)) 0)) 0)) \<and>
   reaches (Document_init ''notes.txt'' (Some ''ab''))
     (apply_request (Document_init ''notes.txt'' (Some ''ab''))
        (InsertRequest ''X'' 1 1 (Some (None, None)) 0)) \<and>
   replay (undo_stack (apply_request (Document_init ''notes.txt'' (Some ''ab''))
        (InsertRequest ''X'' 1 1 (Some (None, None)) 0))) ''ab'' = ''aXb'' \<and>
   content (apply_request (Document_init ''notes.txt'' (Some ''ab''))
        (InsertRequest ''X'' 1 1 (Some (None, None)) 0)) = ''aXb''"
proof -
  let ?d0 = "Document_init ''notes.txt'' (Some ''ab'')"
  let ?r = "InsertRequest ''X'' 1 1 (Some (None, None)) 0"
  have a: "reaches ?d0 (apply_request ?d0 ?r)"
    by (rule reaches_apply [OF reaches_start])
      (simp_all add: Document_init_def forward_delete_merge_def can_group_with_last_def)
  then have u: "reaches ?d0 (snd (undo (apply_request ?d0 ?r) 0))"
    by (rule reaches_undo)
  have c: "content (apply_request ?d0 ?r) = ''aXb''"
    by (simp add: apply_request_def Document_init_def push_on_empty push_command_def
        new_InsertCommand_def InsertCommand_execute_def slice_to_nonneg slice_from_nonneg)
  have k: "content ?d0 = ''ab''"
    by (simp add: Document_init_def)
  from replay_from_loaded_content [OF a] a u c k show ?thesis
    by simp
qed

section \<open>Typing a run of characters\<close>

lemma push_unless_insert_merges:
  "\<not> insert_merges d (Insert c) \<Longrightarrow>
   execute_command d (Insert c) = push_command d (Insert c)"
  by (cases "last (undo_stack d)")
    (auto simp: execute_command.simps insert_merges_def)

lemma stale_abc_doc_eq:
  "stale_abc_doc =
     \<lparr>filename = ''notes.txt'', content = ''abc'',
      undo_stack =
        [Insert \<lparr>cursor_before = 5, selection_before = Some (None, None), window_id = 0,
           cursor_after = Some 8, selection_after = None, ins_text = ''abc'', pos = 5\<rparr>],
      redo_stack = [], last_command_type = Some InsertCommandT\<rparr>"
  by (simp add: stale_abc_doc_def apply_request_def Document_init_def
      execute_command.simps can_group_with_last_def push_command_def merge_insert_def
      new_InsertCommand_def InsertCommand_execute_def slice_to_nonneg slice_from_nonneg)

lemma history_abc_doc_eq:
  "history_abc_doc =
     \<lparr>filename = ''notes.txt'', content = ''aabc'',
      undo_stack =
        [Insert \<lparr>cursor_before = 0, selection_before = Some (None, None), window_id = 0,
           cursor_after = Some 4, selection_after = None, ins_text = ''aabc'', pos = 0\<rparr>],
      redo_stack = [], last_command_type = Some InsertCommandT\<rparr>"
  by (simp add: history_abc_doc_def typed_a_doc_eq apply_request_def
      execute_command.simps can_group_with_last_def push_command_def merge_insert_def
      new_InsertCommand_def InsertCommand_execute_def slice_to_nonneg slice_from_nonneg)

text \<open>
  Claim C2, as stated, fails in two ways. A view whose cursor was left at offset 5 of a
  buffer that is empty by now types \<^verbatim>\<open>a\<close>, \<^verbatim>\<open>b\<close>, \<^verbatim>\<open>c\<close> at the offsets
  5, 6, 7: the undo stack holds the one entry \<^verbatim>\<open>abc\<close> at offset 5, the buffer is
  \<^verbatim>\<open>abc\<close>, and one \<^verbatim>\<open>undo\<close> leaves \<^verbatim>\<open>abc\<close>. And in the document where the
  view has typed \<^verbatim>\<open>a\<close> before, the first of the three insertions is at the end of
  the top entry's text too, so it is merged into that entry: the one entry has the text
  \<^verbatim>\<open>aabc\<close>.
\<close>

theorem typing_abc_counterexample:
  "content (Document_init ''notes.txt'' None) = [] \<and>
   undo_stack (Document_init ''notes.txt'' None) = [] \<and>
   undo_stack stale_abc_doc =
     [Insert \<lparr>cursor_before = 5, selection_before = Some (None, None), window_id = 0,
        cursor_after = Some 8, selection_after = None, ins_text = ''abc'', pos = 5\<rparr>] \<and>
   content stale_abc_doc = ''abc'' \<and>
   content (snd (undo stale_abc_doc 0)) = ''abc'' \<and>
   undo_stack typed_a_doc =
     [Insert \<lparr>cursor_before = 0, selection_before = Some (None, None), window_id = 0,
        cursor_after = Some 1, selection_after = None, ins_text = ''a'', pos = 0\<rparr>] \<and>
   undo_stack history_abc_doc =
     [Insert \<lparr>cursor_before = 0, selection_before = Some (None, None), window_id = 0,
        cursor_after = Some 4, selection_after = None, ins_text = ''aabc'', pos = 0\<rparr>]"
  by (simp add: stale_abc_doc_eq history_abc_doc_eq typed_a_doc_eq Document_init_def undo_def
      InsertCommand_undo_def slice_to_nonneg slice_from_nonneg)

text \<open>
  Claim C2, amended. One view types \<^verbatim>\<open>a\<close>, \<^verbatim>\<open>b\<close>, \<^verbatim>\<open>c\<close> at the offsets
  \<open>p\<close>, \<open>p + 1\<close>, \<open>p + 2\<close>, and the first of the three is not itself merged into the
  top of the undo stack (the stack is empty, or its top is a deletion, or of another view,
  or does not end at \<open>p\<close>). Then the undo stack gains exactly one entry, whose text is
  \<^verbatim>\<open>abc\<close>: on an empty undo stack it is the only entry. When \<open>p\<close> is an offset of the
  buffer, \<open>0 \<le> p \<le> len(content)\<close>, the three characters stand at \<open>p\<close>, and one
  \<^verbatim>\<open>undo\<close> takes all three away, returns the cursor and selection of the first
  insertion and leaves the undo stack as it was before.
\<close>

theorem typing_abc_one_entry:
  assumes "\<not> insert_merges d (Insert (new_InsertCommand ''a'' p ca sa w))"
    and "d1 = snd (execute_command d (Insert (new_InsertCommand ''a'' p ca sa w)))"
    and "d2 = snd (execute_command d1 (Insert (new_InsertCommand ''b'' (p + 1) cb sb w)))"
    and "d3 = snd (execute_command d2 (Insert (new_InsertCommand ''c'' (p + 2) cc sc w)))"
  shows "undo_stack d3 = undo_stack d @
      [Insert \<lparr>cursor_before = ca, selection_before = sa, window_id = w,
         cursor_after = Some (p + 3), selection_after = None, ins_text = ''abc'', pos = p\<rparr>] \<and>
     (0 \<le> p \<and> p \<le> int (length (content d)) \<longrightarrow>
        content d3 = take (nat p) (content d) @ ''abc'' @ drop (nat p) (content d) \<and>
        fst (undo d3 w') = Moved ca sa w \<and>
        content (snd (undo d3 w')) = content d \<and>
        undo_stack (snd (undo d3 w')) = undo_stack d)"
proof -
  let ?e1 = "\<lparr>cursor_before = ca, selection_before = sa, window_id = w,
         cursor_after = Some (p + 1), selection_after = None, ins_text = ''a'', pos = p\<rparr>"
  let ?e2 = "\<lparr>cursor_before = ca, selection_before = sa, window_id = w,
         cursor_after = Some (p + 2), selection_after = None, ins_text = ''ab'', pos = p\<rparr>"
  let ?e3 = "\<lparr>cursor_before = ca, selection_before = sa, window_id = w,
         cursor_after = Some (p + 3), selection_after = None, ins_text = ''abc'', pos = p\<rparr>"
  let ?c1 = "slice_to (content d) p @ ''a'' @ slice_from (content d) p"
  let ?c2 = "slice_to ?c1 (p + 1) @ ''b'' @ slice_from ?c1 (p + 1)"
  let ?c3 = "slice_to ?c2 (p + 2) @ ''c'' @ slice_from ?c2 (p + 2)"
  have s1: "undo_stack d1 = undo_stack d @ [Insert ?e1]" and k1: "content d1 = ?c1"
    using assms(2) push_unless_insert_merges [OF assms(1)]
    by (simp_all add: push_command_def new_InsertCommand_def InsertCommand_execute_def
        Let_def)
  have s2: "undo_stack d2 = undo_stack d @ [Insert ?e2]" and k2: "content d2 = ?c2"
    using assms(3) insert_merge [OF s1, of "new_InsertCommand ''b'' (p + 1) cb sb w"] k1
    by (simp_all add: new_InsertCommand_def)
  have s3: "undo_stack d3 = undo_stack d @ [Insert ?e3]" and k3: "content d3 = ?c3"
    using assms(4) insert_merge [OF s2, of "new_InsertCommand ''c'' (p + 2) cc sc w"] k2
    by (simp_all add: new_InsertCommand_def)
  have "?c3 = take (nat p) (content d) @ ''abc'' @ drop (nat p) (content d) \<and>
        fst (undo d3 w') = Moved ca sa w \<and>
        content (snd (undo d3 w')) = content d \<and>
        undo_stack (snd (undo d3 w')) = undo_stack d"
    if "0 \<le> p" "p \<le> int (length (content d))"
  proof -
    have n: "nat (p + 1) = Suc (nat p)" "nat (p + 2) = Suc (Suc (nat p))"
       "nat (p + 3) = Suc (Suc (Suc (nat p)))" "nat p \<le> length (content d)"
      using that by auto
    have c1: "?c1 = take (nat p) (content d) @ ''a'' @ drop (nat p) (content d)"
      using that by (simp add: slice_to_nonneg slice_from_nonneg)
    have c2: "?c2 = take (nat p) (content d) @ ''ab'' @ drop (nat p) (content d)"
      using that n unfolding c1 by (simp add: slice_to_nonneg slice_from_nonneg min_def)
    have c3: "?c3 = take (nat p) (content d) @ ''abc'' @ drop (nat p) (content d)"
      using that n unfolding c2 by (simp add: slice_to_nonneg slice_from_nonneg min_def)
    show ?thesis
      using that n s3 k3 unfolding c3
      by (simp add: undo_def InsertCommand_undo_def slice_to_nonneg slice_from_nonneg min_def)
  qed
  with s3 k3 show ?thesis by simp
qed

theorem typing_abc_one_entry_witness:
  "\<not> insert_merges (Document_init ''notes.txt'' (Some ''xy''))
      (Insert (new_InsertCommand ''a'' 1 1 (Some (None, None)) 0)) \<and>
   (0::int) \<le> 1 \<and> 1 \<le> int (length (content (Document_init ''notes.txt'' (Some ''xy'')))) \<and>
   undo_stack abc_doc =
     [Insert \<lparr>cursor_before = 1, selection_before = Some (None, None), window_id = 0,
        cursor_after = Some 4, selection_after = None, ins_text = ''abc'', pos = 1\<rparr>] \<and>
   content abc_doc = ''xabcy'' \<and>
   fst (undo abc_doc 0) = Moved 1 (Some (None, None)) 0 \<and>
   content (snd (undo abc_doc 0)) = ''xy''"
  using typing_abc_one_entry
    [where d = "Document_init ''notes.txt'' (Some ''xy'')" and p = 1 and w = 0 and w' = 0
      and ca = 1 and sa = "Some (None, None)" and cb = 2 and sb = "Some (None, None)"
      and cc = 3 and sc = "Some (None, None)", OF _ refl refl refl]
  by (simp add: abc_doc_def Document_init_def insert_merges_def can_group_with_last_def)

end
